theory Spec2Isabelle
  imports Complex_Main
begin

section \<open>The puzzle canvas: data model\<close>

text \<open>
  The component \<open>PuzzleCanvas\<close> (src/components/PuzzleCanvas.tsx) keeps a list of pieces,
  the loaded image, the index of the dragged piece, the drag offset, the canvas size and the
  zoom scale. Its handlers are modelled as functions on a record of that state.

  A JavaScript \<open>number\<close> is modelled as a \<open>real\<close>: arithmetic is exact, and there is no
  \<open>NaN\<close> and no \<open>Infinity\<close>. The one place where the reals would give a definite answer
  that JavaScript does not give is a division by zero (\<open>a / 0 = 0\<close> in HOL, \<open>Infinity\<close> or
  \<open>NaN\<close> in JavaScript); every division by a value that can be zero is therefore guarded and
  yields the outcome \<open>NonFinite\<close>.
\<close>

definition ROWS :: nat where
  "ROWS = 25"

definition COLS :: nat where
  "COLS = 40"

definition SNAP_THRESHOLD :: real where
  "SNAP_THRESHOLD = 20"

text \<open>The type \<open>Piece\<close>; the fields carry the prefix \<open>p_\<close>.\<close>

record piece =
  p_sx :: real
  p_sy :: real
  p_x :: real
  p_y :: real
  p_width :: real
  p_height :: real

text \<open>Of an \<open>HTMLImageElement\<close> the component reads \<open>width\<close> and \<open>height\<close> only.\<close>

record image =
  img_width :: real
  img_height :: real

text \<open>
  The state of the component. \<open>offsetRef\<close> is the pair \<open>(x, y)\<close>, \<open>canvasSize\<close> the pair
  \<open>(width, height)\<close>, and \<open>canvasRef\<close> tells whether \<open>canvasRef.current\<close> is set (the canvas
  element is mounted). State updates are taken to be visible to the next handler that runs.
\<close>

record state =
  pieces :: "piece list"
  image :: "image option"
  draggedIndex :: "nat option"
  offsetRef :: "real \<times> real"
  canvasSize :: "real \<times> real"
  scaleRef :: real
  canvasRef :: bool

text \<open>
  Outcomes that leave the typed state:
  \<^item> \<open>TypeError\<close>: \<open>handleMouseUp\<close> reads \<open>piece.sx\<close> where \<open>pieces[draggedIndex]\<close> is
    \<open>undefined\<close>, which throws;
  \<^item> \<open>MalformedPiece\<close>: \<open>handleMouseMove\<close> with \<open>draggedIndex\<close> out of range spreads
    \<open>undefined\<close> into an empty object, gives it \<open>x\<close> and \<open>y\<close> only, and stores it past the
    end of the array, so that the array no longer is a \<open>Piece[]\<close>;
  \<^item> \<open>NonFinite\<close>: a division by zero.
\<close>

datatype error = TypeError | MalformedPiece | NonFinite

section \<open>The grid builders\<close>

text \<open>
  \<open>initializePieces\<close> (lines 45-63 of the source), \<open>fixPuzzle\<close> (158-177), \<open>messUpPuzzle\<close>
  (179-181) and the \<open>onload\<close> callback (30-42). Each \<open>for\<close> loop is a recursive function
  of its counter and of the array built so far.

  \<open>Math.random()\<close> is a stream of draws \<open>rnd 0, rnd 1, ...\<close>; the builder threads the index
  of the next draw through its loops. The object literal draws \<open>x\<close> before \<open>y\<close>.
\<close>

function initializePieces_cols ::
  "image \<Rightarrow> (nat \<Rightarrow> real) \<Rightarrow> nat \<Rightarrow> nat \<Rightarrow> piece list \<times> nat \<Rightarrow> piece list \<times> nat" where
  "initializePieces_cols img rnd row col (newPieces, k) =
     (let pieceWidth = img_width img / real COLS;
          pieceHeight = img_height img / real ROWS
      in if col < COLS
         then initializePieces_cols img rnd row (col + 1)
                (newPieces @
                   [\<lparr> p_sx = real col * pieceWidth,
                      p_sy = real row * pieceHeight,
                      p_x = rnd k * (img_width img - pieceWidth),
                      p_y = rnd (k + 1) * (img_height img - pieceHeight),
                      p_width = pieceWidth,
                      p_height = pieceHeight \<rparr>],
                 k + 2)
         else (newPieces, k))"
  by pat_completeness auto
termination
  by (relation "measure (\<lambda>(img, rnd, row, col, acc). COLS - col)") auto

function initializePieces_rows ::
  "image \<Rightarrow> (nat \<Rightarrow> real) \<Rightarrow> nat \<Rightarrow> piece list \<times> nat \<Rightarrow> piece list \<times> nat" where
  "initializePieces_rows img rnd row acc =
     (if row < ROWS
      then initializePieces_rows img rnd (row + 1) (initializePieces_cols img rnd row 0 acc)
      else acc)"
  by pat_completeness auto
termination
  by (relation "measure (\<lambda>(img, rnd, row, acc). ROWS - row)") auto

definition initializePieces :: "image \<Rightarrow> (nat \<Rightarrow> real) \<Rightarrow> piece list" where
  "initializePieces img rnd = fst (initializePieces_rows img rnd 0 ([], 0))"

function fixPuzzle_cols :: "image \<Rightarrow> nat \<Rightarrow> nat \<Rightarrow> piece list \<Rightarrow> piece list" where
  "fixPuzzle_cols img row col solvedPieces =
     (let pieceWidth = img_width img / real COLS;
          pieceHeight = img_height img / real ROWS
      in if col < COLS
         then fixPuzzle_cols img row (col + 1)
                (solvedPieces @
                   [\<lparr> p_sx = real col * pieceWidth,
                      p_sy = real row * pieceHeight,
                      p_x = real col * pieceWidth,
                      p_y = real row * pieceHeight,
                      p_width = pieceWidth,
                      p_height = pieceHeight \<rparr>])
         else solvedPieces)"
  by pat_completeness auto
termination
  by (relation "measure (\<lambda>(img, row, col, acc). COLS - col)") auto

function fixPuzzle_rows :: "image \<Rightarrow> nat \<Rightarrow> piece list \<Rightarrow> piece list" where
  "fixPuzzle_rows img row solvedPieces =
     (if row < ROWS
      then fixPuzzle_rows img (row + 1) (fixPuzzle_cols img row 0 solvedPieces)
      else solvedPieces)"
  by pat_completeness auto
termination
  by (relation "measure (\<lambda>(img, row, acc). ROWS - row)") auto

definition fixPuzzle :: "state \<Rightarrow> state" where
  "fixPuzzle s =
     (case image s of
        None \<Rightarrow> s
      | Some img \<Rightarrow> s\<lparr>pieces := fixPuzzle_rows img 0 []\<rparr>)"

definition messUpPuzzle :: "state \<Rightarrow> (nat \<Rightarrow> real) \<Rightarrow> state" where
  "messUpPuzzle s rnd =
     (case image s of
        None \<Rightarrow> s
      | Some img \<Rightarrow> s\<lparr>pieces := initializePieces img rnd\<rparr>)"

text \<open>
  The \<open>onload\<close> callback of the image, with \<open>screenWidth = window.innerWidth\<close>.
\<close>

definition onload :: "state \<Rightarrow> image \<Rightarrow> real \<Rightarrow> (nat \<Rightarrow> real) \<Rightarrow> error + state" where
  "onload s img screenWidth rnd =
     (if img_width img = 0 then Inl NonFinite
      else let scale = screenWidth / img_width img;
               width = img_width img * scale;
               height = img_height img * scale
           in Inr (s\<lparr>image := Some img,
                     scaleRef := scale,
                     canvasSize := (width, height),
                     pieces := initializePieces img rnd\<rparr>))"

section \<open>Hit testing\<close>

text \<open>
  \<open>getPieceAt\<close> (lines 90-103). The loop runs \<open>i\<close> from \<open>pieces.length - 1\<close> down to \<open>0\<close>; the argument
  \<open>n\<close> of the model is \<open>i + 1\<close>, so every read \<open>pieces[i]\<close> is in range.
\<close>

fun getPieceAt_loop :: "piece list \<Rightarrow> real \<Rightarrow> real \<Rightarrow> real \<Rightarrow> nat \<Rightarrow> nat option" where
  "getPieceAt_loop ps scale x y 0 = None"
| "getPieceAt_loop ps scale x y (Suc i) =
     (let p = ps ! i;
          scaledX = p_x p * scale;
          scaledY = p_y p * scale;
          scaledW = p_width p * scale;
          scaledH = p_height p * scale
      in if x \<ge> scaledX \<and> x \<le> scaledX + scaledW \<and> y \<ge> scaledY \<and> y \<le> scaledY + scaledH
         then Some i
         else getPieceAt_loop ps scale x y i)"

definition getPieceAt :: "state \<Rightarrow> real \<Rightarrow> real \<Rightarrow> nat option" where
  "getPieceAt s x y = getPieceAt_loop (pieces s) (scaleRef s) x y (length (pieces s))"

section \<open>The pointer and wheel handlers\<close>

text \<open>
  \<open>handleMouseDown\<close> (lines 105-119), \<open>handleMouseMove\<close> (121-134), \<open>handleMouseUp\<close>
  (136-156) and \<open>handleWheel\<close> (183-196).
  The coordinates \<open>x\<close> and \<open>y\<close> handed to a handler are those the source computes first,
  \<open>e.clientX - rect.left\<close> and \<open>e.clientY - rect.top\<close>; without a canvas element there is no
  \<open>rect\<close> and the handler returns.
\<close>

definition handleMouseDown :: "state \<Rightarrow> real \<Rightarrow> real \<Rightarrow> error + state" where
  "handleMouseDown s x y =
     (if \<not> canvasRef s then Inr s
      else case getPieceAt s x y of
             None \<Rightarrow> Inr s
           | Some index \<Rightarrow>
               let piece = pieces s ! index
               in if scaleRef s = 0 then Inl NonFinite
                  else Inr (s\<lparr>draggedIndex := Some index,
                            offsetRef := (x / scaleRef s - p_x piece,
                                          y / scaleRef s - p_y piece)\<rparr>))"

definition handleMouseMove :: "state \<Rightarrow> real \<Rightarrow> real \<Rightarrow> error + state" where
  "handleMouseMove s x y =
     (case draggedIndex s of
        None \<Rightarrow> Inr s
      | Some i \<Rightarrow>
          if \<not> canvasRef s then Inr s
          else if \<not> i < length (pieces s) then Inl MalformedPiece
          else if scaleRef s = 0 then Inl NonFinite
          else let piece = (pieces s ! i)
                     \<lparr>p_x := x / scaleRef s - fst (offsetRef s),
                      p_y := y / scaleRef s - snd (offsetRef s)\<rparr>
               in Inr (s\<lparr>pieces := (pieces s)[i := piece]\<rparr>))"

definition handleMouseUp :: "state \<Rightarrow> error + state" where
  "handleMouseUp s =
     (case draggedIndex s of
        None \<Rightarrow> Inr s
      | Some i \<Rightarrow>
          if \<not> i < length (pieces s) then Inl TypeError
          else if scaleRef s = 0 then Inl NonFinite
          else let piece = pieces s ! i;
                   correctX = p_sx piece / scaleRef s;
                   correctY = p_sy piece / scaleRef s;
                   distance = sqrt ((p_x piece - correctX)\<^sup>2 + (p_y piece - correctY)\<^sup>2)
               in if distance < SNAP_THRESHOLD
                  then Inr (s\<lparr>pieces := (pieces s)[i := piece\<lparr>p_x := correctX, p_y := correctY\<rparr>],
                            draggedIndex := None\<rparr>)
                  else Inr (s\<lparr>draggedIndex := None\<rparr>))"

definition handleWheel :: "state \<Rightarrow> real \<Rightarrow> state" where
  "handleWheel s deltaY =
     (let zoomAmount = (if deltaY < 0 then 0.1 else - 0.1);
          newScale = max 0.5 (min 2 (scaleRef s + zoomAmount));
          s' = s\<lparr>scaleRef := newScale\<rparr>
      in case image s of
           None \<Rightarrow> s'
         | Some img \<Rightarrow>
             if canvasRef s
             then s'\<lparr>canvasSize := (img_width img * newScale, img_height img * newScale)\<rparr>
             else s')"

section \<open>Events and runs\<close>

text \<open>
  The callbacks the host runtime dispatches, one at a time: the image's \<open>onload\<close> (with the
  image, \<open>window.innerWidth\<close> and the draws of \<open>Math.random()\<close>), the three pointer
  handlers, the two buttons and the wheel handler (with \<open>e.deltaY\<close>).
\<close>

datatype event =
    ImageLoad image real "nat \<Rightarrow> real"
  | MouseDown real real
  | MouseMove real real
  | MouseUp
  | ClickFix
  | ClickMessUp "nat \<Rightarrow> real"
  | Wheel real

fun step :: "state \<Rightarrow> event \<Rightarrow> error + state" where
  "step s (ImageLoad img screenWidth rnd) = onload s img screenWidth rnd"
| "step s (MouseDown x y) = handleMouseDown s x y"
| "step s (MouseMove x y) = handleMouseMove s x y"
| "step s MouseUp = handleMouseUp s"
| "step s ClickFix = Inr (fixPuzzle s)"
| "step s (ClickMessUp rnd) = Inr (messUpPuzzle s rnd)"
| "step s (Wheel deltaY) = Inr (handleWheel s deltaY)"

text \<open>A run stops at the first outcome that leaves the typed state.\<close>

fun run :: "state \<Rightarrow> event list \<Rightarrow> error + state" where
  "run s [] = Inr s"
| "run s (ev # evs) = (case step s ev of Inl e \<Rightarrow> Inl e | Inr s' \<Rightarrow> run s' evs)"

text \<open>
  The state of the first render: the initial values of the \<open>useState\<close> and \<open>useRef\<close> hooks.
  Every handler is a listener of the canvas element or runs after it is mounted, so
  \<open>canvasRef.current\<close> is set.
\<close>

definition initial_state :: state where
  "initial_state =
     \<lparr> pieces = [], image = None, draggedIndex = None, offsetRef = (0, 0),
       canvasSize = (0, 0), scaleRef = 1, canvasRef = True \<rparr>"

text \<open>
  A loaded image has a positive width and height, and the window a positive width; the
  other events carry no constraint.
\<close>

fun valid_event :: "event \<Rightarrow> bool" where
  "valid_event (ImageLoad img screenWidth rnd) =
     (0 < img_width img \<and> 0 < img_height img \<and> 0 < screenWidth)"
| "valid_event _ = True"

text \<open>The events that can occur in the middle of a drag without ending or restarting it.\<close>

fun drag_event :: "event \<Rightarrow> bool" where
  "drag_event (MouseMove x y) = True"
| "drag_event (Wheel deltaY) = True"
| "drag_event _ = False"

text \<open>
  The operations that may write a position: the drag operations (move and release), solve,
  and scramble, which is \<open>initializePieces\<close>, run by the button and by \<open>onload\<close>.
\<close>

fun position_op :: "event \<Rightarrow> bool" where
  "position_op (MouseMove x y) = True"
| "position_op MouseUp = True"
| "position_op ClickFix = True"
| "position_op (ClickMessUp rnd) = True"
| "position_op (ImageLoad img screenWidth rnd) = True"
| "position_op _ = False"

section \<open>Notions of the specification\<close>

text \<open>
  The piece that the scramble builder pushes at row-major index \<open>i\<close>, that is in the
  iteration \<open>row = i div COLS\<close>, \<open>col = i mod COLS\<close>, which takes the draws \<open>2 * i\<close> and
  \<open>2 * i + 1\<close>; and the piece that the solve builder pushes there.
\<close>

definition scrambled_piece :: "image \<Rightarrow> (nat \<Rightarrow> real) \<Rightarrow> nat \<Rightarrow> piece" where
  "scrambled_piece img rnd i =
     \<lparr> p_sx = real (i mod COLS) * (img_width img / real COLS),
       p_sy = real (i div COLS) * (img_height img / real ROWS),
       p_x = rnd (2 * i) * (img_width img - img_width img / real COLS),
       p_y = rnd (2 * i + 1) * (img_height img - img_height img / real ROWS),
       p_width = img_width img / real COLS,
       p_height = img_height img / real ROWS \<rparr>"

definition solved_piece :: "image \<Rightarrow> nat \<Rightarrow> piece" where
  "solved_piece img i =
     \<lparr> p_sx = real (i mod COLS) * (img_width img / real COLS),
       p_sy = real (i div COLS) * (img_height img / real ROWS),
       p_x = real (i mod COLS) * (img_width img / real COLS),
       p_y = real (i div COLS) * (img_height img / real ROWS),
       p_width = img_width img / real COLS,
       p_height = img_height img / real ROWS \<rparr>"

text \<open>
  The scaled bounding box of a tile, with inclusive bounds, as the specification writes it:
  \<open>[posX*scale, posX*scale + width*scale] \<times> [posY*scale, posY*scale + height*scale]\<close>.
\<close>

definition in_box :: "piece \<Rightarrow> real \<Rightarrow> real \<Rightarrow> real \<Rightarrow> bool" where
  "in_box p scale x y \<longleftrightarrow>
     x \<in> {p_x p * scale .. p_x p * scale + p_width p * scale} \<and>
     y \<in> {p_y p * scale .. p_y p * scale + p_height p * scale}"

text \<open>Clamping to an interval, as the specification words the zoom.\<close>

definition clamp :: "real \<Rightarrow> real \<Rightarrow> real \<Rightarrow> real" where
  "clamp lo hi v = (if v < lo then lo else if hi < v then hi else v)"

text \<open>The Euclidean distance of two points of logical space.\<close>

definition euclid :: "real \<times> real \<Rightarrow> real \<times> real \<Rightarrow> real" where
  "euclid a b = sqrt ((fst a - fst b)\<^sup>2 + (snd a - snd b)\<^sup>2)"

text \<open>
  The grid invariant: \<open>ROWS * COLS\<close> tiles, and tile \<open>i\<close> has the source rectangle and the
  dimensions of the cell in row \<open>i div COLS\<close> and column \<open>i mod COLS\<close> of the image.
\<close>

definition grid_ok :: "image \<Rightarrow> piece list \<Rightarrow> bool" where
  "grid_ok img ps \<longleftrightarrow>
     length ps = ROWS * COLS \<and>
     (\<forall>i < length ps.
        p_width (ps ! i) = img_width img / real COLS \<and>
        p_height (ps ! i) = img_height img / real ROWS \<and>
        p_sx (ps ! i) = real (i mod COLS) * p_width (ps ! i) \<and>
        p_sy (ps ! i) = real (i div COLS) * p_height (ps ! i))"

text \<open>The last image delivered by an \<open>onload\<close> in a list of events.\<close>

fun last_image :: "image option \<Rightarrow> event list \<Rightarrow> image option" where
  "last_image cur [] = cur"
| "last_image cur (ImageLoad img screenWidth rnd # evs) = last_image (Some img) evs"
| "last_image cur (ev # evs) = last_image cur evs"

text \<open>
  What a move or a wheel event in the middle of a drag preserves: the dragged index \<open>i\<close>,
  the offset \<open>off\<close>, the number \<open>n\<close> of tiles with \<open>i < n\<close>, the canvas flag \<open>c\<close>, and a
  non-zero scale.
\<close>

definition dragging :: "nat \<Rightarrow> real \<times> real \<Rightarrow> nat \<Rightarrow> bool \<Rightarrow> state \<Rightarrow> bool" where
  "dragging i off n c s \<longleftrightarrow>
     draggedIndex s = Some i \<and> offsetRef s = off \<and> length (pieces s) = n \<and> i < n \<and>
     canvasRef s = c \<and> scaleRef s \<noteq> 0"

text \<open>
  The invariant of the states the component reaches: without an image there are no tiles;
  with an image the tiles form its grid; a dragged index points into the tile sequence; and
  the scale is not zero.
\<close>

definition state_inv :: "state \<Rightarrow> bool" where
  "state_inv s \<longleftrightarrow>
     (case image s of None \<Rightarrow> pieces s = [] | Some img \<Rightarrow> grid_ok img (pieces s)) \<and>
     (case draggedIndex s of None \<Rightarrow> True | Some i \<Rightarrow> i < length (pieces s)) \<and>
     scaleRef s \<noteq> 0"

text \<open>
  A sample session: a 1000 x 625 image is loaded into a window 2000 pixels wide (so the scale
  is 2), the puzzle is solved with the button, and the pointer goes down at \<open>(1960, 1210)\<close>,
  inside the last tile (row 24, col 39, index 999). \<open>sample_drag\<close> is the state reached.
\<close>

definition sample_image :: image where
  "sample_image = \<lparr>img_width = 1000, img_height = 625\<rparr>"

definition sample_drag :: state where
  "sample_drag =
     initial_state
       \<lparr>image := Some sample_image,
        scaleRef := 2,
        canvasSize := (2000, 1250),
        pieces := fixPuzzle_rows sample_image 0 [],
        draggedIndex := Some 999,
        offsetRef := (5, 5)\<rparr>"

section \<open>The builders in closed form\<close>

text \<open>
  The loop functions are unfolded by hand, one iteration at a time, in the proofs below.
\<close>

declare initializePieces_cols.simps [simp del] initializePieces_rows.simps [simp del]
  fixPuzzle_cols.simps [simp del] fixPuzzle_rows.simps [simp del]

lemma upt_split: "a \<le> b \<Longrightarrow> b \<le> c \<Longrightarrow> [a ..< b] @ [b ..< c] = [a ..< c]"
  using upt_add_eq_append [of a b "c - b"] by simp

lemma initializePieces_cols_eq:
  "col \<le> COLS \<Longrightarrow> k = 2 * (row * COLS + col) \<Longrightarrow>
   initializePieces_cols img rnd row col (ps, k) =
     (ps @ map (scrambled_piece img rnd) [row * COLS + col ..< row * COLS + COLS],
      2 * (row * COLS + COLS))"
proof (induction n \<equiv> "COLS - col" arbitrary: col ps k)
  case 0
  then have "col = COLS" by simp
  with 0 show ?case by (subst initializePieces_cols.simps) (simp add: Let_def)
next
  case (Suc n)
  then have lt: "col < COLS" by simp
  have range: "[row * COLS + col ..< row * COLS + COLS] =
               (row * COLS + col) # [row * COLS + (col + 1) ..< row * COLS + COLS]"
    using lt by (simp add: upt_conv_Cons)
  have "initializePieces_cols img rnd row col (ps, k) =
        initializePieces_cols img rnd row (col + 1)
          (ps @ [scrambled_piece img rnd (row * COLS + col)], k + 2)"
    using lt Suc.prems(2)
    by (subst initializePieces_cols.simps) (simp add: Let_def scrambled_piece_def)
  also have "\<dots> = ((ps @ [scrambled_piece img rnd (row * COLS + col)]) @
                    map (scrambled_piece img rnd) [row * COLS + (col + 1) ..< row * COLS + COLS],
                  2 * (row * COLS + COLS))"
    using lt Suc.prems Suc.hyps(2) by (intro Suc.hyps(1)) auto
  finally show ?case by (simp add: range)
qed

lemma initializePieces_rows_eq:
  "row \<le> ROWS \<Longrightarrow> k = 2 * (row * COLS) \<Longrightarrow>
   initializePieces_rows img rnd row (ps, k) =
     (ps @ map (scrambled_piece img rnd) [row * COLS ..< ROWS * COLS], 2 * (ROWS * COLS))"
proof (induction n \<equiv> "ROWS - row" arbitrary: row ps k)
  case 0
  then have "row = ROWS" by simp
  with 0 show ?case by (subst initializePieces_rows.simps) simp
next
  case (Suc n)
  then have lt: "row < ROWS" by simp
  then have le: "row * COLS + COLS \<le> ROWS * COLS"
    by (metis Suc_leI mult_Suc mult_le_mono1 add.commute)
  have "initializePieces_rows img rnd row (ps, k) =
        initializePieces_rows img rnd (row + 1)
          (ps @ map (scrambled_piece img rnd) [row * COLS ..< row * COLS + COLS],
           2 * ((row + 1) * COLS))"
    using lt Suc.prems(2) initializePieces_cols_eq [of 0 k row img rnd ps]
    by (subst initializePieces_rows.simps) (simp add: algebra_simps)
  also have "\<dots> = ((ps @ map (scrambled_piece img rnd) [row * COLS ..< row * COLS + COLS]) @
                    map (scrambled_piece img rnd) [row * COLS + COLS ..< ROWS * COLS],
                  2 * (ROWS * COLS))"
    using lt Suc.hyps(2) Suc.hyps(1) [of "row + 1" "2 * ((row + 1) * COLS)"]
    by (simp add: add.commute)
  also have "(ps @ map (scrambled_piece img rnd) [row * COLS ..< row * COLS + COLS]) @
               map (scrambled_piece img rnd) [row * COLS + COLS ..< ROWS * COLS] =
             ps @ map (scrambled_piece img rnd) [row * COLS ..< ROWS * COLS]"
    by (simp only: append_assoc flip: map_append)
      (simp only: upt_split [OF le_add1 le])
  finally show ?case .
qed

lemma initializePieces_eq:
  "initializePieces img rnd = map (scrambled_piece img rnd) [0 ..< ROWS * COLS]"
  using initializePieces_rows_eq [of 0 0 img rnd "[]"] by (simp add: initializePieces_def)


lemma fixPuzzle_cols_eq:
  "col \<le> COLS \<Longrightarrow>
   fixPuzzle_cols img row col ps =
     ps @ map (solved_piece img) [row * COLS + col ..< row * COLS + COLS]"
proof (induction n \<equiv> "COLS - col" arbitrary: col ps)
  case 0
  then have "col = COLS" by simp
  then show ?case by (subst fixPuzzle_cols.simps) (simp add: Let_def)
next
  case (Suc n)
  then have lt: "col < COLS" by simp
  have range: "[row * COLS + col ..< row * COLS + COLS] =
               (row * COLS + col) # [row * COLS + (col + 1) ..< row * COLS + COLS]"
    using lt by (simp add: upt_conv_Cons)
  have "fixPuzzle_cols img row col ps =
        fixPuzzle_cols img row (col + 1) (ps @ [solved_piece img (row * COLS + col)])"
    using lt by (subst fixPuzzle_cols.simps) (simp add: Let_def solved_piece_def)
  also have "\<dots> = (ps @ [solved_piece img (row * COLS + col)]) @
                    map (solved_piece img) [row * COLS + (col + 1) ..< row * COLS + COLS]"
    using lt Suc.hyps(2) by (intro Suc.hyps(1)) auto
  finally show ?case by (simp add: range)
qed

lemma fixPuzzle_rows_eq:
  "row \<le> ROWS \<Longrightarrow>
   fixPuzzle_rows img row ps = ps @ map (solved_piece img) [row * COLS ..< ROWS * COLS]"
proof (induction n \<equiv> "ROWS - row" arbitrary: row ps)
  case 0
  then have "row = ROWS" by simp
  then show ?case by (subst fixPuzzle_rows.simps) simp
next
  case (Suc n)
  then have lt: "row < ROWS" by simp
  then have le: "row * COLS + COLS \<le> ROWS * COLS"
    by (metis Suc_leI mult_Suc mult_le_mono1 add.commute)
  have "fixPuzzle_rows img row ps =
        fixPuzzle_rows img (row + 1)
          (ps @ map (solved_piece img) [row * COLS ..< row * COLS + COLS])"
    using lt fixPuzzle_cols_eq [of 0 img row ps]
    by (subst fixPuzzle_rows.simps) simp
  also have "\<dots> = (ps @ map (solved_piece img) [row * COLS ..< row * COLS + COLS]) @
                    map (solved_piece img) [row * COLS + COLS ..< ROWS * COLS]"
    using lt Suc.hyps(2) Suc.hyps(1) [of "row + 1"]
    by (simp add: add.commute)
  also have "(ps @ map (solved_piece img) [row * COLS ..< row * COLS + COLS]) @
               map (solved_piece img) [row * COLS + COLS ..< ROWS * COLS] =
             ps @ map (solved_piece img) [row * COLS ..< ROWS * COLS]"
    by (simp only: append_assoc flip: map_append)
      (simp only: upt_split [OF le_add1 le])
  finally show ?case .
qed

lemma fixPuzzle_rows_0: "fixPuzzle_rows img 0 [] = map (solved_piece img) [0 ..< ROWS * COLS]"
  using fixPuzzle_rows_eq [of 0 img "[]"] by simp

lemma cell_lt: "row < ROWS \<Longrightarrow> col < COLS \<Longrightarrow> row * COLS + col < ROWS * COLS"
proof -
  assume "row < ROWS" "col < COLS"
  then have "row * COLS + col < row * COLS + COLS" "(row + 1) * COLS \<le> ROWS * COLS"
    by (simp_all del: mult_Suc add: Suc_leI)
  then show ?thesis by simp
qed

lemma initializePieces_length: "length (initializePieces img rnd) = ROWS * COLS"
  by (simp add: initializePieces_eq)

lemma initializePieces_nth:
  "i < ROWS * COLS \<Longrightarrow> initializePieces img rnd ! i = scrambled_piece img rnd i"
  by (simp add: initializePieces_eq)

lemma fixPuzzle_rows_length: "length (fixPuzzle_rows img 0 []) = ROWS * COLS"
  by (simp add: fixPuzzle_rows_0)

lemma fixPuzzle_rows_nth:
  "i < ROWS * COLS \<Longrightarrow> fixPuzzle_rows img 0 [] ! i = solved_piece img i"
  by (simp add: fixPuzzle_rows_0)

section \<open>The grid builder\<close>

text \<open>
  Claim C2. For every loaded image, the grid builder (the scramble builder
  \<open>initializePieces\<close> as well as the solve builder of \<open>fixPuzzle\<close>) produces exactly
  \<open>ROWS * COLS = 25 * 40 = 1000\<close> tiles in row-major order: the tile of grid coordinates
  \<open>(row, col)\<close> is at index \<open>row * COLS + col\<close>, has \<open>width = imageWidth / COLS\<close> and
  \<open>height = imageHeight / ROWS\<close>, and its source rectangle has the origin
  \<open>(sourceX, sourceY) = (col * width, row * height)\<close>.
\<close>

theorem grid_builder_row_major:
  "ROWS * COLS = 1000 \<and>
   length (initializePieces img rnd) = ROWS * COLS \<and>
   length (fixPuzzle_rows img 0 []) = ROWS * COLS \<and>
   (\<forall>row < ROWS. \<forall>col < COLS.
      \<forall>p \<in> {initializePieces img rnd ! (row * COLS + col),
              fixPuzzle_rows img 0 [] ! (row * COLS + col)}.
        p_width p = img_width img / real COLS \<and>
        p_height p = img_height img / real ROWS \<and>
        p_sx p = real col * p_width p \<and>
        p_sy p = real row * p_height p)"
proof (intro conjI allI impI ballI)
  show "ROWS * COLS = 1000" by (simp add: ROWS_def COLS_def)
next
  fix row col p
  assume rc: "row < ROWS" "col < COLS"
    and p: "p \<in> {initializePieces img rnd ! (row * COLS + col),
                 fixPuzzle_rows img 0 [] ! (row * COLS + col)}"
  from rc have "row * COLS + col < ROWS * COLS" by (rule cell_lt)
  with p have "p = scrambled_piece img rnd (row * COLS + col) \<or>
               p = solved_piece img (row * COLS + col)"
    by (simp add: initializePieces_nth fixPuzzle_rows_nth)
  with rc show "p_width p = img_width img / real COLS"
    "p_height p = img_height img / real ROWS"
    "p_sx p = real col * p_width p"
    "p_sy p = real row * p_height p"
    by (auto simp: scrambled_piece_def solved_piece_def)
qed (simp_all add: initializePieces_length fixPuzzle_rows_length)

theorem grid_builder_row_major_witness:
  "p_sx (initializePieces \<lparr>img_width = 1000, img_height = 625\<rparr> (\<lambda>k. 0) ! 999) = 975 \<and>
   p_sy (initializePieces \<lparr>img_width = 1000, img_height = 625\<rparr> (\<lambda>k. 0) ! 999) = 600 \<and>
   p_width (fixPuzzle_rows \<lparr>img_width = 1000, img_height = 625\<rparr> 0 [] ! 999) = 25"
proof -
  let ?img = "\<lparr>img_width = 1000, img_height = 625\<rparr>"
  have rc: "(24::nat) < ROWS" "(39::nat) < COLS" and idx: "24 * COLS + 39 = 999"
    by (simp_all add: ROWS_def COLS_def)
  have "\<forall>p \<in> {initializePieces ?img (\<lambda>k. 0) ! (24 * COLS + 39),
              fixPuzzle_rows ?img 0 [] ! (24 * COLS + 39)}.
          p_width p = img_width ?img / real COLS \<and>
          p_height p = img_height ?img / real ROWS \<and>
          p_sx p = real 39 * p_width p \<and>
          p_sy p = real 24 * p_height p"
    using grid_builder_row_major [of ?img "\<lambda>k. 0"] rc by blast
  then show ?thesis
    unfolding idx by (simp add: ROWS_def COLS_def)
qed

section \<open>Solve\<close>

lemma fixPuzzle_pieces:
  "image s = Some img \<Longrightarrow> pieces (fixPuzzle s) = map (solved_piece img) [0 ..< ROWS * COLS]"
  by (simp add: fixPuzzle_def fixPuzzle_rows_0)

lemma fixPuzzle_image: "image (fixPuzzle s) = image s"
  by (simp add: fixPuzzle_def split: option.splits)

lemma fixPuzzle_idem: "fixPuzzle (fixPuzzle s) = fixPuzzle s"
  by (simp add: fixPuzzle_def split: option.splits)

text \<open>
  Claim C3. After the solve operation on a state with a loaded image, every tile's position
  equals \<open>(col * width, row * height)\<close> for its grid coordinates \<open>(row, col)\<close>, and solve
  is idempotent. For a 1000 x 625 image every tile is 25 x 25, the tile at row 0, col 0 is
  at \<open>(0, 0)\<close> and the tile at row 24, col 39 is at \<open>(975, 600)\<close>.
\<close>

theorem solve_positions_idempotent:
  assumes "image s = Some img"
  shows "length (pieces (fixPuzzle s)) = ROWS * COLS \<and>
    (\<forall>row < ROWS. \<forall>col < COLS.
       p_x (pieces (fixPuzzle s) ! (row * COLS + col)) =
         real col * p_width (pieces (fixPuzzle s) ! (row * COLS + col)) \<and>
       p_y (pieces (fixPuzzle s) ! (row * COLS + col)) =
         real row * p_height (pieces (fixPuzzle s) ! (row * COLS + col))) \<and>
    fixPuzzle (fixPuzzle s) = fixPuzzle s \<and>
    (img = \<lparr>img_width = 1000, img_height = 625\<rparr> \<longrightarrow>
       (\<forall>p \<in> set (pieces (fixPuzzle s)). p_width p = 25 \<and> p_height p = 25) \<and>
       p_x (pieces (fixPuzzle s) ! (0 * COLS + 0)) = 0 \<and>
       p_y (pieces (fixPuzzle s) ! (0 * COLS + 0)) = 0 \<and>
       p_x (pieces (fixPuzzle s) ! (24 * COLS + 39)) = 975 \<and>
       p_y (pieces (fixPuzzle s) ! (24 * COLS + 39)) = 600)"
proof (intro conjI allI impI ballI)
  note ps = fixPuzzle_pieces [OF assms]
  show "length (pieces (fixPuzzle s)) = ROWS * COLS" by (simp add: ps)
  show "fixPuzzle (fixPuzzle s) = fixPuzzle s" by (rule fixPuzzle_idem)
  {
    fix row col
    assume rc: "row < ROWS" "col < COLS"
    then have "row * COLS + col < ROWS * COLS" by (rule cell_lt)
    then have p: "pieces (fixPuzzle s) ! (row * COLS + col) = solved_piece img (row * COLS + col)"
      by (simp add: ps)
    show "p_x (pieces (fixPuzzle s) ! (row * COLS + col)) =
          real col * p_width (pieces (fixPuzzle s) ! (row * COLS + col))"
      using rc by (simp add: p solved_piece_def)
    show "p_y (pieces (fixPuzzle s) ! (row * COLS + col)) =
          real row * p_height (pieces (fixPuzzle s) ! (row * COLS + col))"
      using rc by (simp add: p solved_piece_def)
  }
  assume img: "img = \<lparr>img_width = 1000, img_height = 625\<rparr>"
  {
    fix p
    assume "p \<in> set (pieces (fixPuzzle s))"
    then obtain i where "p = solved_piece img i" by (auto simp: ps)
    then show "p_width p = 25" "p_height p = 25"
      by (simp_all add: img solved_piece_def ROWS_def COLS_def)
  }
  have first: "pieces (fixPuzzle s) ! (0 * COLS + 0) = solved_piece img 0"
    by (simp add: ps ROWS_def COLS_def)
  have "24 * COLS + 39 < ROWS * COLS" by (simp add: ROWS_def COLS_def)
  then have last: "pieces (fixPuzzle s) ! (24 * COLS + 39) = solved_piece img (24 * COLS + 39)"
    by (simp add: ps)
  show "p_x (pieces (fixPuzzle s) ! (0 * COLS + 0)) = 0"
    "p_y (pieces (fixPuzzle s) ! (0 * COLS + 0)) = 0"
    unfolding first by (simp_all add: solved_piece_def)
  show "p_x (pieces (fixPuzzle s) ! (24 * COLS + 39)) = 975"
    "p_y (pieces (fixPuzzle s) ! (24 * COLS + 39)) = 600"
    unfolding last by (simp_all add: img solved_piece_def ROWS_def COLS_def)
qed

theorem solve_positions_idempotent_witness:
  "image (initial_state\<lparr>image := Some \<lparr>img_width = 1000, img_height = 625\<rparr>\<rparr>) =
     Some \<lparr>img_width = 1000, img_height = 625\<rparr> \<and>
   p_x (pieces (fixPuzzle (initial_state\<lparr>image := Some \<lparr>img_width = 1000, img_height = 625\<rparr>\<rparr>))
          ! (24 * COLS + 39)) = 975 \<and>
   fixPuzzle (fixPuzzle (initial_state\<lparr>image := Some \<lparr>img_width = 1000, img_height = 625\<rparr>\<rparr>)) =
     fixPuzzle (initial_state\<lparr>image := Some \<lparr>img_width = 1000, img_height = 625\<rparr>\<rparr>)"
proof -
  let ?img = "\<lparr>img_width = 1000, img_height = 625\<rparr>"
  let ?s = "initial_state\<lparr>image := Some ?img\<rparr>"
  have h: "image ?s = Some ?img" by simp
  from solve_positions_idempotent [OF h] h show ?thesis by blast
qed

section \<open>Scramble\<close>

lemma messUpPuzzle_pieces:
  "image s = Some img \<Longrightarrow>
   pieces (messUpPuzzle s rnd) = map (scrambled_piece img rnd) [0 ..< ROWS * COLS]"
  by (simp add: messUpPuzzle_def initializePieces_eq)

lemma cell_margin:
  fixes w :: real
  assumes "0 < w"
  shows "0 < w - w / real COLS" and "0 < w - w / real ROWS"
proof -
  have "w / real COLS < w" "w / real ROWS < w"
    using assms by (simp_all add: COLS_def ROWS_def)
  then show "0 < w - w / real COLS" and "0 < w - w / real ROWS" by simp_all
qed

lemma draw_in_range:
  fixes r a :: real
  assumes "0 \<le> r" "r < 1" "0 < a"
  shows "0 \<le> r * a" and "r * a < a"
  using assms by simp_all

text \<open>The draws that place tile \<open>i\<close> at \<open>(tx i, ty i)\<close>.\<close>

lemma draws_for_placement:
  fixes a b :: real and n :: nat and tx ty :: "nat \<Rightarrow> real"
  assumes a: "0 < a" and b: "0 < b"
    and tgt: "\<forall>i < n. 0 \<le> tx i \<and> tx i < a \<and> 0 \<le> ty i \<and> ty i < b"
  shows "\<exists>rnd. (\<forall>k. 0 \<le> rnd k \<and> rnd k < 1) \<and>
               (\<forall>i < n. rnd (2 * i) * a = tx i \<and> rnd (2 * i + 1) * b = ty i)"
proof -
  define rnd :: "nat \<Rightarrow> real" where
    "rnd k = (if k div 2 < n then (if even k then tx (k div 2) / a else ty (k div 2) / b) else 0)"
    for k
  have "0 \<le> rnd k \<and> rnd k < 1" for k
    using a b tgt by (auto simp: rnd_def)
  moreover have "rnd (2 * i) * a = tx i \<and> rnd (2 * i + 1) * b = ty i" if "i < n" for i
    using that a b by (simp add: rnd_def)
  ultimately show ?thesis by blast
qed

text \<open>
  Claim C4. After the scramble operation on a state with a loaded image (of positive width
  and height, with \<open>Math.random()\<close> drawing from \<open>[0, 1)\<close>), every tile's \<open>posX\<close> lies in
  \<open>[0, imageWidth - width)\<close> and every tile's \<open>posY\<close> in \<open>[0, imageHeight - height)\<close>. The
  positions are drawn independently per tile with no collision avoidance, so the bound is
  the only guarantee: every placement of the tiles within the bounds, and so every
  overlap, is the outcome of some draws.
\<close>

theorem scramble_positions_bounded:
  assumes "image s = Some img" and "0 < img_width img" and "0 < img_height img"
  shows "(\<forall>rnd. (\<forall>k. 0 \<le> rnd k \<and> rnd k < 1) \<longrightarrow>
            (\<forall>p \<in> set (pieces (messUpPuzzle s rnd)).
               0 \<le> p_x p \<and> p_x p < img_width img - p_width p \<and>
               0 \<le> p_y p \<and> p_y p < img_height img - p_height p)) \<and>
         (\<forall>tx ty.
            (\<forall>i < ROWS * COLS.
               0 \<le> tx i \<and> tx i < img_width img - img_width img / real COLS \<and>
               0 \<le> ty i \<and> ty i < img_height img - img_height img / real ROWS) \<longrightarrow>
            (\<exists>rnd. (\<forall>k. 0 \<le> rnd k \<and> rnd k < 1) \<and>
               (\<forall>i < ROWS * COLS.
                  p_x (pieces (messUpPuzzle s rnd) ! i) = tx i \<and>
                  p_y (pieces (messUpPuzzle s rnd) ! i) = ty i)))"
proof (intro conjI allI impI ballI)
  fix rnd p
  assume rnd: "\<forall>k. 0 \<le> rnd k \<and> rnd k < 1"
    and "p \<in> set (pieces (messUpPuzzle s rnd))"
  then obtain i where p: "p = scrambled_piece img rnd i"
    by (auto simp: messUpPuzzle_pieces [OF assms(1)])
  from rnd have "0 \<le> rnd (2 * i)" "rnd (2 * i) < 1" "0 \<le> rnd (2 * i + 1)" "rnd (2 * i + 1) < 1"
    by simp_all
  with cell_margin [OF assms(2)] cell_margin [OF assms(3)]
  show "0 \<le> p_x p" "p_x p < img_width img - p_width p"
    "0 \<le> p_y p" "p_y p < img_height img - p_height p"
    unfolding p scrambled_piece_def by (simp_all add: draw_in_range)
next
  fix tx ty :: "nat \<Rightarrow> real"
  assume tgt: "\<forall>i < ROWS * COLS.
               0 \<le> tx i \<and> tx i < img_width img - img_width img / real COLS \<and>
               0 \<le> ty i \<and> ty i < img_height img - img_height img / real ROWS"
  from draws_for_placement [OF cell_margin(1) [OF assms(2)] cell_margin(2) [OF assms(3)] tgt]
  obtain rnd where rnd: "\<forall>k. 0 \<le> rnd k \<and> rnd k < 1"
    and at: "\<forall>i < ROWS * COLS.
               rnd (2 * i) * (img_width img - img_width img / real COLS) = tx i \<and>
               rnd (2 * i + 1) * (img_height img - img_height img / real ROWS) = ty i"
    by blast
  have "\<forall>i < ROWS * COLS.
          p_x (pieces (messUpPuzzle s rnd) ! i) = tx i \<and>
          p_y (pieces (messUpPuzzle s rnd) ! i) = ty i"
    using at by (simp add: messUpPuzzle_pieces [OF assms(1)] scrambled_piece_def)
  with rnd show "\<exists>rnd. (\<forall>k. 0 \<le> rnd k \<and> rnd k < 1) \<and>
               (\<forall>i < ROWS * COLS.
                  p_x (pieces (messUpPuzzle s rnd) ! i) = tx i \<and>
                  p_y (pieces (messUpPuzzle s rnd) ! i) = ty i)"
    by blast
qed

theorem scramble_positions_bounded_witness:
  "image (initial_state\<lparr>image := Some \<lparr>img_width = 1000, img_height = 625\<rparr>\<rparr>) =
     Some \<lparr>img_width = 1000, img_height = 625\<rparr> \<and>
   (0::real) < img_width \<lparr>img_width = 1000, img_height = 625\<rparr> \<and>
   (0::real) < img_height \<lparr>img_width = 1000, img_height = 625\<rparr> \<and>
   (0::real) \<le> 1 / 2 \<and> (1::real) / 2 < 1 \<and>
   p_x (pieces (messUpPuzzle
          (initial_state\<lparr>image := Some \<lparr>img_width = 1000, img_height = 625\<rparr>\<rparr>)
          (\<lambda>k. 1 / 2)) ! 0) < 975 \<and>
   p_y (pieces (messUpPuzzle
          (initial_state\<lparr>image := Some \<lparr>img_width = 1000, img_height = 625\<rparr>\<rparr>)
          (\<lambda>k. 1 / 2)) ! 0) < 600"
proof -
  let ?img = "\<lparr>img_width = 1000, img_height = 625\<rparr>"
  let ?s = "initial_state\<lparr>image := Some ?img\<rparr>"
  let ?ps = "pieces (messUpPuzzle ?s (\<lambda>k. 1 / 2))"
  have h: "image ?s = Some ?img" "0 < img_width ?img" "0 < img_height ?img" by simp_all
  have r: "\<forall>k::nat. (0::real) \<le> 1 / 2 \<and> (1::real) / 2 < 1" by simp
  note bound = scramble_positions_bounded [OF h, THEN conjunct1, THEN spec, of "\<lambda>k. 1 / 2"]
  with r have all: "\<forall>p \<in> set ?ps.
          0 \<le> p_x p \<and> p_x p < img_width ?img - p_width p \<and>
          0 \<le> p_y p \<and> p_y p < img_height ?img - p_height p"
    by simp
  have "0 < ROWS * COLS" by (simp add: ROWS_def COLS_def)
  then have first: "?ps ! 0 \<in> set ?ps" "?ps ! 0 = scrambled_piece ?img (\<lambda>k. 1 / 2) 0"
    by (simp_all add: messUpPuzzle_pieces [OF h(1)])
  from all first(1) have "p_x (?ps ! 0) < img_width ?img - p_width (?ps ! 0)"
    "p_y (?ps ! 0) < img_height ?img - p_height (?ps ! 0)"
    by blast+
  moreover have "p_width (?ps ! 0) = 25" "p_height (?ps ! 0) = 25"
    unfolding first(2) by (simp_all add: scrambled_piece_def ROWS_def COLS_def)
  ultimately show ?thesis using h by simp
qed

section \<open>The hit test finds the topmost tile\<close>

lemma getPieceAt_loop_Suc:
  "getPieceAt_loop ps scale x y (Suc i) =
     (if in_box (ps ! i) scale x y then Some i else getPieceAt_loop ps scale x y i)"
  by (simp add: in_box_def Let_def)

lemma getPieceAt_loop_None:
  "getPieceAt_loop ps scale x y n = None \<longleftrightarrow> (\<forall>i < n. \<not> in_box (ps ! i) scale x y)"
proof (induction n)
  case 0
  show ?case by simp
next
  case (Suc n)
  show ?case
    unfolding getPieceAt_loop_Suc using Suc.IH by (auto simp: less_Suc_eq)
qed

lemma getPieceAt_loop_Some:
  "getPieceAt_loop ps scale x y n = Some i \<longleftrightarrow>
     i < n \<and> in_box (ps ! i) scale x y \<and> (\<forall>j < n. i < j \<longrightarrow> \<not> in_box (ps ! j) scale x y)"
proof (induction n)
  case 0
  show ?case by simp
next
  case (Suc n)
  show ?case
  proof (cases "in_box (ps ! n) scale x y")
    case True
    then have "getPieceAt_loop ps scale x y (Suc n) = Some n"
      unfolding getPieceAt_loop_Suc by simp
    moreover have "(i < Suc n \<and> in_box (ps ! i) scale x y \<and>
                    (\<forall>j < Suc n. i < j \<longrightarrow> \<not> in_box (ps ! j) scale x y)) \<longleftrightarrow> n = i"
      using True by (auto simp: less_Suc_eq)
    ultimately show ?thesis by simp
  next
    case False
    then have "getPieceAt_loop ps scale x y (Suc n) = getPieceAt_loop ps scale x y n"
      unfolding getPieceAt_loop_Suc by simp
    moreover have "(i < Suc n \<and> in_box (ps ! i) scale x y \<and>
                    (\<forall>j < Suc n. i < j \<longrightarrow> \<not> in_box (ps ! j) scale x y)) \<longleftrightarrow>
                   (i < n \<and> in_box (ps ! i) scale x y \<and>
                    (\<forall>j < n. i < j \<longrightarrow> \<not> in_box (ps ! j) scale x y))"
      using False by (auto simp: less_Suc_eq)
    ultimately show ?thesis using Suc.IH by simp
  qed
qed

lemma getPieceAt_in_range: "getPieceAt s x y = Some i \<Longrightarrow> i < length (pieces s)"
  by (simp add: getPieceAt_def getPieceAt_loop_Some)

text \<open>
  Claim C5. For every screen-space point and every tile sequence, the hit test returns the
  highest index \<open>i\<close> such that the point lies within tile \<open>i\<close>'s scaled bounding box
  \<open>[posX*scale, posX*scale + width*scale] \<times> [posY*scale, posY*scale + height*scale]\<close>, with
  inclusive bounds on all four edges, and returns none when no tile's box contains the
  point, in particular when the tile sequence is empty.
\<close>

theorem hit_test_topmost:
  "(getPieceAt s x y = None \<longleftrightarrow>
      (\<forall>i < length (pieces s). \<not> in_box (pieces s ! i) (scaleRef s) x y)) \<and>
   (\<forall>i. getPieceAt s x y = Some i \<longleftrightarrow>
      i < length (pieces s) \<and> in_box (pieces s ! i) (scaleRef s) x y \<and>
      (\<forall>j < length (pieces s). i < j \<longrightarrow> \<not> in_box (pieces s ! j) (scaleRef s) x y)) \<and>
   (pieces s = [] \<longrightarrow> getPieceAt s x y = None)"
  unfolding getPieceAt_def
  by (intro conjI allI impI getPieceAt_loop_None getPieceAt_loop_Some) simp

theorem hit_test_topmost_witness:
  "getPieceAt
     (initial_state\<lparr>pieces :=
        [\<lparr>p_sx = 0, p_sy = 0, p_x = 0, p_y = 0, p_width = 25, p_height = 25\<rparr>,
         \<lparr>p_sx = 25, p_sy = 0, p_x = 25, p_y = 0, p_width = 25, p_height = 25\<rparr>,
         \<lparr>p_sx = 50, p_sy = 0, p_x = 100, p_y = 100, p_width = 25, p_height = 25\<rparr>]\<rparr>)
     25 25 = Some 1 \<and>
   getPieceAt (initial_state\<lparr>pieces := []\<rparr>) 25 25 = None"
proof -
  let ?s = "initial_state\<lparr>pieces :=
        [\<lparr>p_sx = 0, p_sy = 0, p_x = 0, p_y = 0, p_width = 25, p_height = 25\<rparr>,
         \<lparr>p_sx = 25, p_sy = 0, p_x = 25, p_y = 0, p_width = 25, p_height = 25\<rparr>,
         \<lparr>p_sx = 50, p_sy = 0, p_x = 100, p_y = 100, p_width = 25, p_height = 25\<rparr>]\<rparr>"
  have "(1::nat) < length (pieces ?s) \<and> in_box (pieces ?s ! 1) (scaleRef ?s) 25 25 \<and>
        (\<forall>j < length (pieces ?s). 1 < j \<longrightarrow> \<not> in_box (pieces ?s ! j) (scaleRef ?s) 25 25)"
    by (auto simp: initial_state_def in_box_def less_Suc_eq numeral_3_eq_3)
  then have "getPieceAt ?s 25 25 = Some 1"
    using hit_test_topmost [of ?s 25 25] by blast
  moreover have "getPieceAt (initial_state\<lparr>pieces := []\<rparr>) 25 25 = None"
    using hit_test_topmost [of "initial_state\<lparr>pieces := []\<rparr>" 25 25] by simp
  ultimately show ?thesis by simp
qed

section \<open>Zoom\<close>

lemma handleWheel_scale:
  "scaleRef (handleWheel s deltaY) =
     max 0.5 (min 2 (scaleRef s + (if deltaY < 0 then 0.1 else - 0.1)))"
  by (simp add: handleWheel_def Let_def split: option.splits)

lemma handleWheel_scale_range:
  "0.5 \<le> scaleRef (handleWheel s deltaY)" "scaleRef (handleWheel s deltaY) \<le> 2"
  unfolding handleWheel_scale by simp_all

lemma handleWheel_frame:
  "pieces (handleWheel s deltaY) = pieces s"
  "image (handleWheel s deltaY) = image s"
  "draggedIndex (handleWheel s deltaY) = draggedIndex s"
  "offsetRef (handleWheel s deltaY) = offsetRef s"
  "canvasRef (handleWheel s deltaY) = canvasRef s"
  by (simp_all add: handleWheel_def Let_def split: option.splits)

lemma zoom_in_step:
  fixes a n :: real
  assumes "0.5 \<le> a" "0 \<le> n"
  shows "max 0.5 (min 2 (min 2 (a + 0.1 * n) + 0.1)) = min 2 (a + 0.1 * (n + 1))"
  using assms unfolding min_def max_def by (auto simp: field_simps)

lemma zoom_out_step:
  fixes a n :: real
  assumes "a \<le> 2" "0 \<le> n"
  shows "max 0.5 (min 2 (max 0.5 (a - 0.1 * n) + - 0.1)) = max 0.5 (a - 0.1 * (n + 1))"
  using assms unfolding min_def max_def by (auto simp: field_simps)

lemma foldl_handleWheel_range:
  assumes "deltas \<noteq> []"
  shows "0.5 \<le> scaleRef (foldl handleWheel s deltas) \<and> scaleRef (foldl handleWheel s deltas) \<le> 2"
proof (cases deltas rule: rev_cases)
  case Nil
  with assms show ?thesis by simp
next
  case (snoc ds d)
  show ?thesis
    using handleWheel_scale_range [of "foldl handleWheel s ds" d] by (simp add: snoc)
qed

lemma foldl_handleWheel_up:
  "\<forall>d \<in> set deltas. d < 0 \<Longrightarrow> 0.5 \<le> scaleRef s \<Longrightarrow> scaleRef s \<le> 2 \<Longrightarrow>
   scaleRef (foldl handleWheel s deltas) = min 2 (scaleRef s + 0.1 * real (length deltas))"
proof (induction deltas rule: rev_induct)
  case Nil
  then show ?case by simp
next
  case (snoc d deltas)
  then have "scaleRef (foldl handleWheel s deltas) = min 2 (scaleRef s + 0.1 * real (length deltas))"
    and "d < 0"
    by simp_all
  then have "scaleRef (foldl handleWheel s (deltas @ [d])) =
             max 0.5 (min 2 (min 2 (scaleRef s + 0.1 * real (length deltas)) + 0.1))"
    by (simp add: handleWheel_scale)
  also have "\<dots> = min 2 (scaleRef s + 0.1 * real (length (deltas @ [d])))"
    using zoom_in_step [OF snoc.prems(2), of "real (length deltas)"]
    by (simp add: add.commute)
  finally show ?case .
qed

lemma foldl_handleWheel_down:
  "\<forall>d \<in> set deltas. 0 < d \<Longrightarrow> 0.5 \<le> scaleRef s \<Longrightarrow> scaleRef s \<le> 2 \<Longrightarrow>
   scaleRef (foldl handleWheel s deltas) = max 0.5 (scaleRef s - 0.1 * real (length deltas))"
proof (induction deltas rule: rev_induct)
  case Nil
  then show ?case by simp
next
  case (snoc d deltas)
  then have "scaleRef (foldl handleWheel s deltas) = max 0.5 (scaleRef s - 0.1 * real (length deltas))"
    and "\<not> d < 0"
    by simp_all
  then have "scaleRef (foldl handleWheel s (deltas @ [d])) =
             max 0.5 (min 2 (max 0.5 (scaleRef s - 0.1 * real (length deltas)) + - 0.1))"
    by (simp add: handleWheel_scale)
  also have "\<dots> = max 0.5 (scaleRef s - 0.1 * real (length (deltas @ [d])))"
    using zoom_out_step [OF snoc.prems(3), of "real (length deltas)"]
    by (simp add: add.commute)
  finally show ?case .
qed

text \<open>
  Claim C7. Every wheel event changes the scale by exactly 0.1 (wheel-up, \<open>deltaY < 0\<close>, adds
  0.1; wheel-down subtracts 0.1), with the result clamped to \<open>[0.5, 2.0]\<close>, and with a loaded
  image and the canvas mounted recomputes the canvas size as
  \<open>(imageWidth * scale, imageHeight * scale)\<close>. Hence every sequence of repeated wheel-up
  events leaves the scale at most 2.0 and every sequence of repeated wheel-down events
  leaves it at least 0.5; from a scale within the range, \<open>n\<close> wheel-up events give
  \<open>min 2 (scale + 0.1 * n)\<close> and \<open>n\<close> wheel-down events give \<open>max 0.5 (scale - 0.1 * n)\<close>.
\<close>

theorem wheel_zoom_clamped:
  "scaleRef (handleWheel s deltaY) =
     clamp 0.5 2 (scaleRef s + (if deltaY < 0 then 0.1 else - 0.1)) \<and>
   0.5 \<le> scaleRef (handleWheel s deltaY) \<and> scaleRef (handleWheel s deltaY) \<le> 2 \<and>
   (image s = Some img \<and> canvasRef s \<longrightarrow>
      canvasSize (handleWheel s deltaY) =
        (img_width img * scaleRef (handleWheel s deltaY),
         img_height img * scaleRef (handleWheel s deltaY))) \<and>
   (\<forall>deltas. deltas \<noteq> [] \<longrightarrow>
      0.5 \<le> scaleRef (foldl handleWheel s deltas) \<and>
      scaleRef (foldl handleWheel s deltas) \<le> 2) \<and>
   (\<forall>deltas. (\<forall>d \<in> set deltas. d < 0) \<and> 0.5 \<le> scaleRef s \<and> scaleRef s \<le> 2 \<longrightarrow>
      scaleRef (foldl handleWheel s deltas) = min 2 (scaleRef s + 0.1 * real (length deltas))) \<and>
   (\<forall>deltas. (\<forall>d \<in> set deltas. 0 < d) \<and> 0.5 \<le> scaleRef s \<and> scaleRef s \<le> 2 \<longrightarrow>
      scaleRef (foldl handleWheel s deltas) = max 0.5 (scaleRef s - 0.1 * real (length deltas)))"
proof (intro conjI allI impI)
  show "scaleRef (handleWheel s deltaY) =
          clamp 0.5 2 (scaleRef s + (if deltaY < 0 then 0.1 else - 0.1))"
    unfolding handleWheel_scale by (simp add: clamp_def min_def max_def)
  show "0.5 \<le> scaleRef (handleWheel s deltaY)" "scaleRef (handleWheel s deltaY) \<le> 2"
    by (rule handleWheel_scale_range)+
  show "canvasSize (handleWheel s deltaY) =
          (img_width img * scaleRef (handleWheel s deltaY),
           img_height img * scaleRef (handleWheel s deltaY))"
    if "image s = Some img \<and> canvasRef s"
    using that by (simp add: handleWheel_def Let_def)
  show "0.5 \<le> scaleRef (foldl handleWheel s deltas)"
    "scaleRef (foldl handleWheel s deltas) \<le> 2" if "deltas \<noteq> []" for deltas
    using foldl_handleWheel_range [OF that] by simp_all
  show "scaleRef (foldl handleWheel s deltas) = min 2 (scaleRef s + 0.1 * real (length deltas))"
    if "(\<forall>d \<in> set deltas. d < 0) \<and> 0.5 \<le> scaleRef s \<and> scaleRef s \<le> 2" for deltas
    using that foldl_handleWheel_up by blast
  show "scaleRef (foldl handleWheel s deltas) = max 0.5 (scaleRef s - 0.1 * real (length deltas))"
    if "(\<forall>d \<in> set deltas. 0 < d) \<and> 0.5 \<le> scaleRef s \<and> scaleRef s \<le> 2" for deltas
    using that foldl_handleWheel_down by blast
qed

theorem wheel_zoom_clamped_witness:
  "scaleRef (handleWheel (initial_state\<lparr>image := Some \<lparr>img_width = 1000, img_height = 625\<rparr>\<rparr>) (- 100))
     = 1.1 \<and>
   canvasSize (handleWheel (initial_state\<lparr>image := Some \<lparr>img_width = 1000, img_height = 625\<rparr>\<rparr>) (- 100))
     = (1100, 687.5) \<and>
   scaleRef (foldl handleWheel (initial_state\<lparr>image := Some \<lparr>img_width = 1000, img_height = 625\<rparr>\<rparr>)
               (replicate 15 (- 100))) = 2 \<and>
   scaleRef (foldl handleWheel (initial_state\<lparr>image := Some \<lparr>img_width = 1000, img_height = 625\<rparr>\<rparr>)
               (replicate 15 100)) = 0.5"
proof -
  let ?img = "\<lparr>img_width = 1000, img_height = 625\<rparr>"
  let ?s = "initial_state\<lparr>image := Some ?img\<rparr>"
  note w = wheel_zoom_clamped [of ?s "- 100" ?img]
  have s: "image ?s = Some ?img \<and> canvasRef ?s" "scaleRef ?s = 1"
    by (simp_all add: initial_state_def)
  have 1: "scaleRef (handleWheel ?s (- 100)) = 1.1"
    using w [THEN conjunct1] s by (simp add: clamp_def)
  have 2: "canvasSize (handleWheel ?s (- 100)) = (1100, 687.5)"
    using w s(1) unfolding 1 by simp
  have up: "(\<forall>d \<in> set (replicate 15 (- 100 :: real)). d < 0) \<and> 0.5 \<le> scaleRef ?s \<and> scaleRef ?s \<le> 2"
    and down: "(\<forall>d \<in> set (replicate 15 (100 :: real)). 0 < d) \<and> 0.5 \<le> scaleRef ?s \<and> scaleRef ?s \<le> 2"
    using s(2) by simp_all
  have 3: "scaleRef (foldl handleWheel ?s (replicate 15 (- 100))) = 2"
    using w up s(2) by simp
  have 4: "scaleRef (foldl handleWheel ?s (replicate 15 100)) = 0.5"
    using w down s(2) by simp
  from 1 2 3 4 show ?thesis by simp
qed

section \<open>Who writes a position\<close>

lemma handleMouseDown_pieces: "handleMouseDown s x y = Inr s' \<Longrightarrow> pieces s' = pieces s"
  by (auto simp: handleMouseDown_def Let_def split: if_splits option.splits)

lemma handleMouseMove_idle: "draggedIndex s = None \<Longrightarrow> handleMouseMove s x y = Inr s"
  by (simp add: handleMouseMove_def)

lemma handleMouseUp_idle: "draggedIndex s = None \<Longrightarrow> handleMouseUp s = Inr s"
  by (simp add: handleMouseUp_def)

text \<open>
  Claim C8. A tile's position is mutated only by the drag operations (pointer-move while
  dragging, and release), solve, and scramble: an event that changes the tile sequence is
  one of those, and a move or release changes it only while a tile is dragged. In
  particular a wheel event leaves the tile sequence, and so every tile's \<open>posX\<close>, \<open>posY\<close>,
  \<open>width\<close> and \<open>height\<close>, unchanged: only the scale factor and the canvas size change.
\<close>

theorem positions_written_only_by_drag_solve_scramble:
  "pieces (handleWheel s deltaY) = pieces s \<and>
   handleWheel s deltaY =
     s\<lparr>scaleRef := scaleRef (handleWheel s deltaY),
       canvasSize := canvasSize (handleWheel s deltaY)\<rparr> \<and>
   (\<forall>ev s'. step s ev = Inr s' \<and> pieces s' \<noteq> pieces s \<longrightarrow>
      position_op ev \<and>
      (ev = MouseUp \<or> (\<exists>x y. ev = MouseMove x y) \<longrightarrow> draggedIndex s \<noteq> None))"
proof (intro conjI allI impI)
  show "pieces (handleWheel s deltaY) = pieces s"
    by (rule handleWheel_frame)
  show "handleWheel s deltaY =
          s\<lparr>scaleRef := scaleRef (handleWheel s deltaY),
            canvasSize := canvasSize (handleWheel s deltaY)\<rparr>"
    by (simp add: handleWheel_def Let_def split: option.splits)
next
  fix ev s'
  assume a: "step s ev = Inr s' \<and> pieces s' \<noteq> pieces s"
  then show "position_op ev"
    by (cases ev) (auto simp: handleWheel_frame dest: handleMouseDown_pieces)
  assume "ev = MouseUp \<or> (\<exists>x y. ev = MouseMove x y)"
  with a show "draggedIndex s \<noteq> None"
    using handleMouseMove_idle [of s] handleMouseUp_idle [of s] by (cases "draggedIndex s") auto
qed

theorem positions_written_only_by_drag_solve_scramble_witness:
  "step (initial_state\<lparr>image := Some \<lparr>img_width = 1000, img_height = 625\<rparr>\<rparr>) ClickFix =
     Inr (fixPuzzle (initial_state\<lparr>image := Some \<lparr>img_width = 1000, img_height = 625\<rparr>\<rparr>)) \<and>
   pieces (fixPuzzle (initial_state\<lparr>image := Some \<lparr>img_width = 1000, img_height = 625\<rparr>\<rparr>)) \<noteq>
     pieces (initial_state\<lparr>image := Some \<lparr>img_width = 1000, img_height = 625\<rparr>\<rparr>) \<and>
   position_op ClickFix"
proof -
  let ?s = "initial_state\<lparr>image := Some \<lparr>img_width = 1000, img_height = 625\<rparr>\<rparr>"
  have "length (pieces (fixPuzzle ?s)) = ROWS * COLS"
    by (simp add: fixPuzzle_def fixPuzzle_rows_length)
  then have "pieces (fixPuzzle ?s) \<noteq> pieces ?s"
    by (auto simp: initial_state_def ROWS_def COLS_def)
  moreover have "step ?s ClickFix = Inr (fixPuzzle ?s)" by simp
  ultimately show ?thesis
    using positions_written_only_by_drag_solve_scramble [of ?s 0] by blast
qed

section \<open>Dragging\<close>

lemma handleMouseDown_hit:
  assumes "canvasRef s" "scaleRef s \<noteq> 0" "getPieceAt s x y = Some i"
  shows "handleMouseDown s x y =
           Inr (s\<lparr>draggedIndex := Some i,
                  offsetRef := (x / scaleRef s - p_x (pieces s ! i),
                                y / scaleRef s - p_y (pieces s ! i))\<rparr>)"
  using assms by (simp add: handleMouseDown_def Let_def)

lemma handleMouseMove_drag:
  assumes "draggedIndex s = Some i" "canvasRef s" "i < length (pieces s)" "scaleRef s \<noteq> 0"
  shows "handleMouseMove s x y =
           Inr (s\<lparr>pieces := (pieces s)
                  [i := (pieces s ! i)\<lparr>p_x := x / scaleRef s - fst (offsetRef s),
                                        p_y := y / scaleRef s - snd (offsetRef s)\<rparr>]\<rparr>)"
  using assms by (simp add: handleMouseMove_def Let_def)

lemma handleMouseMove_no_canvas:
  "\<not> canvasRef s \<Longrightarrow> handleMouseMove s x y = Inr s"
  by (simp add: handleMouseMove_def split: option.splits)

lemma drag_step:
  assumes "drag_event ev" "dragging i off n c s"
  shows "\<exists>s'. step s ev = Inr s' \<and> dragging i off n c s'"
proof (cases ev)
  case (MouseMove x y)
  show ?thesis
  proof (cases "canvasRef s")
    case True
    with assms(2) show ?thesis
      unfolding MouseMove dragging_def by (simp add: handleMouseMove_drag)
  next
    case False
    with assms(2) show ?thesis
      unfolding MouseMove by (simp add: handleMouseMove_no_canvas)
  qed
next
  case (Wheel deltaY)
  have "scaleRef (handleWheel s deltaY) \<noteq> 0"
    using handleWheel_scale_range(1) [of s deltaY] by auto
  with assms(2) show ?thesis
    unfolding Wheel dragging_def by (simp add: handleWheel_frame)
qed (use assms(1) in simp_all)

lemma drag_run:
  assumes "\<forall>ev \<in> set evs. drag_event ev" "dragging i off n c s"
  shows "\<exists>s'. run s evs = Inr s' \<and> dragging i off n c s'"
  using assms
proof (induction evs arbitrary: s)
  case Nil
  then show ?case by simp
next
  case (Cons ev evs)
  then obtain s1 where s1: "step s ev = Inr s1" "dragging i off n c s1"
    using drag_step [of ev i off n c s] by auto
  with Cons.IH [of s1] Cons.prems(1) show ?case by simp
qed


text \<open>
  Claim C6. During a drag of tile \<open>i\<close>, every pointer-move event sets tile \<open>i\<close>'s position to
  \<open>point / scale - dragOffset\<close>, where \<open>dragOffset = downPoint / scale - tile.pos\<close> was
  captured once, at the pointer-down that started the drag, and is held constant throughout
  the drag, whatever moves and wheel events came before; the scale of the quotient is the
  one current at the event. A pointer-move in the idle state changes no tile.
\<close>

theorem drag_move_follows_pointer:
  "(draggedIndex s = None \<longrightarrow> handleMouseMove s x y = Inr s) \<and>
   (canvasRef s \<and> scaleRef s \<noteq> 0 \<and> getPieceAt s downX downY = Some i \<and>
    (\<forall>ev \<in> set evs. drag_event ev) \<longrightarrow>
      (\<exists>s1 s2 s3.
         handleMouseDown s downX downY = Inr s1 \<and>
         draggedIndex s1 = Some i \<and>
         offsetRef s1 = (downX / scaleRef s - p_x (pieces s ! i),
                         downY / scaleRef s - p_y (pieces s ! i)) \<and>
         run s1 evs = Inr s2 \<and>
         draggedIndex s2 = Some i \<and> offsetRef s2 = offsetRef s1 \<and> scaleRef s2 \<noteq> 0 \<and>
         handleMouseMove s2 x y = Inr s3 \<and>
         draggedIndex s3 = Some i \<and> offsetRef s3 = offsetRef s1 \<and>
         p_x (pieces s3 ! i) = x / scaleRef s2 - fst (offsetRef s1) \<and>
         p_y (pieces s3 ! i) = y / scaleRef s2 - snd (offsetRef s1) \<and>
         length (pieces s3) = length (pieces s2) \<and>
         (\<forall>j. j \<noteq> i \<longrightarrow> pieces s3 ! j = pieces s2 ! j)))"
proof (intro conjI impI)
  assume "draggedIndex s = None"
  then show "handleMouseMove s x y = Inr s" by (rule handleMouseMove_idle)
next
  assume a: "canvasRef s \<and> scaleRef s \<noteq> 0 \<and> getPieceAt s downX downY = Some i \<and>
             (\<forall>ev \<in> set evs. drag_event ev)"
  define off where "off = (downX / scaleRef s - p_x (pieces s ! i),
                           downY / scaleRef s - p_y (pieces s ! i))"
  define s1 where "s1 = s\<lparr>draggedIndex := Some i, offsetRef := off\<rparr>"
  from a have down: "handleMouseDown s downX downY = Inr s1"
    unfolding s1_def off_def by (simp add: handleMouseDown_hit)
  from a have "i < length (pieces s)" by (auto dest: getPieceAt_in_range)
  with a have d1: "dragging i off (length (pieces s)) True s1"
    by (simp add: dragging_def s1_def)
  with a obtain s2 where s2: "run s1 evs = Inr s2" "dragging i off (length (pieces s)) True s2"
    using drag_run by blast
  define s3 where "s3 = s2\<lparr>pieces := (pieces s2)
                  [i := (pieces s2 ! i)\<lparr>p_x := x / scaleRef s2 - fst (offsetRef s2),
                                        p_y := y / scaleRef s2 - snd (offsetRef s2)\<rparr>]\<rparr>"
  from s2(2) have move: "handleMouseMove s2 x y = Inr s3"
    unfolding s3_def by (intro handleMouseMove_drag) (simp_all add: dragging_def)
  have "draggedIndex s1 = Some i" "offsetRef s1 = off" by (simp_all add: s1_def)
  moreover from s2(2) have "draggedIndex s2 = Some i" "offsetRef s2 = off" "scaleRef s2 \<noteq> 0"
    and i: "i < length (pieces s2)"
    by (simp_all add: dragging_def)
  moreover from this have "draggedIndex s3 = Some i" "offsetRef s3 = off"
    "p_x (pieces s3 ! i) = x / scaleRef s2 - fst off"
    "p_y (pieces s3 ! i) = y / scaleRef s2 - snd off"
    "length (pieces s3) = length (pieces s2)"
    "\<forall>j. j \<noteq> i \<longrightarrow> pieces s3 ! j = pieces s2 ! j"
    by (simp_all add: s3_def)
  ultimately show "\<exists>s1 s2 s3.
         handleMouseDown s downX downY = Inr s1 \<and>
         draggedIndex s1 = Some i \<and>
         offsetRef s1 = (downX / scaleRef s - p_x (pieces s ! i),
                         downY / scaleRef s - p_y (pieces s ! i)) \<and>
         run s1 evs = Inr s2 \<and>
         draggedIndex s2 = Some i \<and> offsetRef s2 = offsetRef s1 \<and> scaleRef s2 \<noteq> 0 \<and>
         handleMouseMove s2 x y = Inr s3 \<and>
         draggedIndex s3 = Some i \<and> offsetRef s3 = offsetRef s1 \<and>
         p_x (pieces s3 ! i) = x / scaleRef s2 - fst (offsetRef s1) \<and>
         p_y (pieces s3 ! i) = y / scaleRef s2 - snd (offsetRef s1) \<and>
         length (pieces s3) = length (pieces s2) \<and>
         (\<forall>j. j \<noteq> i \<longrightarrow> pieces s3 ! j = pieces s2 ! j)"
    using down s2(1) move unfolding off_def [symmetric]
    by (intro exI [of _ s1] exI [of _ s2] exI [of _ s3]) simp
qed


theorem drag_move_follows_pointer_witness:
  "\<exists>s1 s2 s3.
     handleMouseDown
       (initial_state\<lparr>pieces :=
          [\<lparr>p_sx = 0, p_sy = 0, p_x = 10, p_y = 20, p_width = 25, p_height = 25\<rparr>],
          scaleRef := 2\<rparr>) 30 50 = Inr s1 \<and>
     draggedIndex s1 = Some 0 \<and> offsetRef s1 = (5, 5) \<and>
     run s1 [MouseMove 40 60, Wheel 100] = Inr s2 \<and>
     handleMouseMove s2 95 57 = Inr s3 \<and>
     p_x (pieces s3 ! 0) = 95 / scaleRef s2 - 5 \<and>
     p_y (pieces s3 ! 0) = 57 / scaleRef s2 - 5"
proof -
  let ?s = "initial_state\<lparr>pieces :=
          [\<lparr>p_sx = 0, p_sy = 0, p_x = 10, p_y = 20, p_width = 25, p_height = 25\<rparr>],
          scaleRef := 2\<rparr>"
  have h: "canvasRef ?s \<and> scaleRef ?s \<noteq> 0 \<and> getPieceAt ?s 30 50 = Some 0 \<and>
           (\<forall>ev \<in> set [MouseMove 40 60, Wheel 100]. drag_event ev)"
    by (simp add: initial_state_def getPieceAt_def)
  from drag_move_follows_pointer [of ?s 95 57 30 50 0 "[MouseMove 40 60, Wheel 100]",
      THEN conjunct2, THEN mp, OF h]
  obtain s1 s2 s3 where
    "handleMouseDown ?s 30 50 = Inr s1" "draggedIndex s1 = Some 0"
    "offsetRef s1 = (30 / scaleRef ?s - p_x (pieces ?s ! 0), 50 / scaleRef ?s - p_y (pieces ?s ! 0))"
    "run s1 [MouseMove 40 60, Wheel 100] = Inr s2"
    "handleMouseMove s2 95 57 = Inr s3"
    "p_x (pieces s3 ! 0) = 95 / scaleRef s2 - fst (offsetRef s1)"
    "p_y (pieces s3 ! 0) = 57 / scaleRef s2 - snd (offsetRef s1)"
    by blast
  then show ?thesis
    by (intro exI [of _ s1] exI [of _ s2] exI [of _ s3]) (simp add: initial_state_def)
qed

section \<open>The grid invariant\<close>

lemma grid_ok_scrambled: "grid_ok img (initializePieces img rnd)"
  by (simp add: grid_ok_def initializePieces_eq scrambled_piece_def)

lemma grid_ok_solved: "grid_ok img (fixPuzzle_rows img 0 [])"
  by (simp add: grid_ok_def fixPuzzle_rows_0 solved_piece_def)

lemma grid_ok_move:
  assumes "grid_ok img ps"
  shows "grid_ok img (ps[i := (ps ! i)\<lparr>p_x := a, p_y := b\<rparr>])"
proof (cases "i < length ps")
  case True
  with assms show ?thesis unfolding grid_ok_def by (auto simp: nth_list_update)
next
  case False
  then have "ps[i := (ps ! i)\<lparr>p_x := a, p_y := b\<rparr>] = ps" by (simp add: list_update_beyond)
  with assms show ?thesis by simp
qed

lemma grid_ok_length: "grid_ok img ps \<Longrightarrow> length ps = ROWS * COLS"
  by (simp add: grid_ok_def)

lemma state_inv_initial: "state_inv initial_state"
  by (simp add: state_inv_def initial_state_def)

lemma state_inv_length:
  "state_inv s \<Longrightarrow> draggedIndex s = Some i \<Longrightarrow> i < ROWS * COLS"
  by (auto simp: state_inv_def grid_ok_def split: option.splits)

lemma state_inv_onload:
  assumes "state_inv s" "valid_event (ImageLoad img screenWidth rnd)"
  shows "\<exists>s'. onload s img screenWidth rnd = Inr s' \<and> state_inv s' \<and> image s' = Some img"
proof -
  from assms(2) have pos: "img_width img \<noteq> 0" "screenWidth / img_width img \<noteq> 0" by simp_all
  have "case draggedIndex s of None \<Rightarrow> True | Some i \<Rightarrow> i < length (initializePieces img rnd)"
    using state_inv_length [OF assms(1)]
    by (simp add: initializePieces_length split: option.splits)
  with pos show ?thesis
    by (simp add: onload_def Let_def state_inv_def grid_ok_scrambled split: option.splits)
qed

lemma state_inv_handleMouseDown:
  assumes "state_inv s"
  shows "\<exists>s'. handleMouseDown s x y = Inr s' \<and> state_inv s' \<and> image s' = image s"
proof (cases "canvasRef s \<and> getPieceAt s x y \<noteq> None")
  case True
  then obtain i where i: "getPieceAt s x y = Some i" by auto
  then have "i < length (pieces s)" by (rule getPieceAt_in_range)
  with True i assms show ?thesis
    by (simp add: handleMouseDown_hit state_inv_def split: option.splits)
next
  case False
  then have "handleMouseDown s x y = Inr s"
    by (auto simp: handleMouseDown_def)
  with assms show ?thesis by simp
qed

lemma state_inv_handleMouseMove:
  assumes "state_inv s"
  shows "\<exists>s'. handleMouseMove s x y = Inr s' \<and> state_inv s' \<and> image s' = image s"
proof (cases "draggedIndex s")
  case None
  with assms show ?thesis by (simp add: handleMouseMove_idle)
next
  case (Some i)
  show ?thesis
  proof (cases "canvasRef s")
    case True
    from assms Some have "i < length (pieces s)" "scaleRef s \<noteq> 0"
      by (simp_all add: state_inv_def)
    with assms Some True show ?thesis
      by (auto simp: handleMouseMove_drag state_inv_def grid_ok_move split: option.splits)
  next
    case False
    with assms show ?thesis by (simp add: handleMouseMove_no_canvas)
  qed
qed

lemma handleMouseUp_drag:
  assumes "draggedIndex s = Some i" "i < length (pieces s)" "scaleRef s \<noteq> 0"
  shows "handleMouseUp s =
     (if sqrt ((p_x (pieces s ! i) - p_sx (pieces s ! i) / scaleRef s)\<^sup>2 +
               (p_y (pieces s ! i) - p_sy (pieces s ! i) / scaleRef s)\<^sup>2) < SNAP_THRESHOLD
      then Inr (s\<lparr>pieces := (pieces s)
                   [i := (pieces s ! i)\<lparr>p_x := p_sx (pieces s ! i) / scaleRef s,
                                         p_y := p_sy (pieces s ! i) / scaleRef s\<rparr>],
                 draggedIndex := None\<rparr>)
      else Inr (s\<lparr>draggedIndex := None\<rparr>))"
  using assms by (simp add: handleMouseUp_def Let_def)

lemma state_inv_handleMouseUp:
  assumes "state_inv s"
  shows "\<exists>s'. handleMouseUp s = Inr s' \<and> state_inv s' \<and> image s' = image s"
proof (cases "draggedIndex s")
  case None
  with assms show ?thesis by (simp add: handleMouseUp_idle)
next
  case (Some i)
  from assms Some have "i < length (pieces s)" "scaleRef s \<noteq> 0"
    by (simp_all add: state_inv_def)
  with assms Some show ?thesis
    by (auto simp: handleMouseUp_drag state_inv_def grid_ok_move split: option.splits)
qed

lemma state_inv_fixPuzzle:
  assumes "state_inv s"
  shows "state_inv (fixPuzzle s) \<and> image (fixPuzzle s) = image s"
proof (cases "image s")
  case None
  with assms show ?thesis by (simp add: fixPuzzle_def)
next
  case (Some img)
  with assms show ?thesis
    by (auto simp: fixPuzzle_def state_inv_def grid_ok_solved grid_ok_length
        fixPuzzle_rows_length split: option.splits)
qed

lemma state_inv_messUpPuzzle:
  assumes "state_inv s"
  shows "state_inv (messUpPuzzle s rnd) \<and> image (messUpPuzzle s rnd) = image s"
proof (cases "image s")
  case None
  with assms show ?thesis by (simp add: messUpPuzzle_def)
next
  case (Some img)
  with assms show ?thesis
    by (auto simp: messUpPuzzle_def state_inv_def grid_ok_scrambled grid_ok_length
        initializePieces_length split: option.splits)
qed

lemma state_inv_handleWheel:
  assumes "state_inv s"
  shows "state_inv (handleWheel s deltaY) \<and> image (handleWheel s deltaY) = image s"
proof -
  have "scaleRef (handleWheel s deltaY) \<noteq> 0"
    using handleWheel_scale_range(1) [of s deltaY] by auto
  with assms show ?thesis by (auto simp: state_inv_def handleWheel_frame split: option.splits)
qed

lemma state_inv_step:
  assumes "state_inv s" "valid_event ev"
  shows "\<exists>s'. step s ev = Inr s' \<and> state_inv s' \<and> image s' = last_image (image s) [ev]"
proof (cases ev)
  case (ImageLoad img screenWidth rnd)
  with state_inv_onload [OF assms(1)] assms(2) show ?thesis by simp
next
  case (MouseDown x y)
  with state_inv_handleMouseDown [OF assms(1)] show ?thesis by simp
next
  case (MouseMove x y)
  with state_inv_handleMouseMove [OF assms(1)] show ?thesis by simp
next
  case MouseUp
  with state_inv_handleMouseUp [OF assms(1)] show ?thesis by simp
next
  case ClickFix
  with state_inv_fixPuzzle [OF assms(1)] show ?thesis by simp
next
  case (ClickMessUp rnd)
  with state_inv_messUpPuzzle [OF assms(1)] show ?thesis by simp
next
  case (Wheel deltaY)
  with state_inv_handleWheel [OF assms(1)] show ?thesis by simp
qed

lemma state_inv_run:
  assumes "state_inv s" "\<forall>ev \<in> set evs. valid_event ev"
  shows "\<exists>s'. run s evs = Inr s' \<and> state_inv s' \<and> image s' = last_image (image s) evs"
  using assms
proof (induction evs arbitrary: s)
  case Nil
  then show ?case by simp
next
  case (Cons ev evs)
  then obtain s1 where s1: "step s ev = Inr s1" "state_inv s1"
    "image s1 = last_image (image s) [ev]"
    using state_inv_step [of s ev] by auto
  from Cons.IH [OF s1(2)] Cons.prems(2)
  obtain s' where "run s1 evs = Inr s'" "state_inv s'" "image s' = last_image (image s1) evs"
    by auto
  moreover have "last_image (image s1) evs = last_image (image s) (ev # evs)"
    unfolding s1(3) by (cases ev) simp_all
  ultimately show ?case using s1(1) by simp
qed


text \<open>
  Claim C10. From the first grid build onward, every operation (pointer-move, release,
  solve, scramble, wheel, and also pointer-down and a further image load) preserves the
  property that the tile sequence has length \<open>ROWS * COLS = 1000\<close> and that, for every
  index \<open>i\<close>, tile \<open>i\<close> has \<open>sourceX = (i mod COLS) * width\<close>,
  \<open>sourceY = (i div COLS) * height\<close>, \<open>width = imageWidth / COLS\<close> and
  \<open>height = imageHeight / ROWS\<close>: no operation changes a tile's source rectangle or its
  dimensions. The events of a run load images of positive size into a window of positive
  width; no run of such events leaves the typed state.
\<close>

theorem grid_invariant_preserved:
  "ROWS * COLS = 1000 \<and>
   ((\<forall>ev \<in> set evs. valid_event ev) \<longrightarrow>
      (\<exists>s. run initial_state evs = Inr s \<and> state_inv s \<and>
           image s = last_image None evs \<and>
           (case image s of
              None \<Rightarrow> pieces s = []
            | Some img \<Rightarrow> grid_ok img (pieces s)))) \<and>
   (state_inv s0 \<and> image s0 = Some img0 \<and> valid_event ev \<longrightarrow>
      (\<exists>s' img'. step s0 ev = Inr s' \<and> state_inv s' \<and> image s' = Some img' \<and>
         grid_ok img' (pieces s')))"
proof (intro conjI impI)
  show "ROWS * COLS = 1000" by (simp add: ROWS_def COLS_def)
next
  assume "\<forall>ev \<in> set evs. valid_event ev"
  from state_inv_run [OF state_inv_initial this]
  obtain s where s: "run initial_state evs = Inr s" "state_inv s"
    "image s = last_image (image initial_state) evs"
    by blast
  have "image initial_state = None" by (simp add: initial_state_def)
  with s show "\<exists>s. run initial_state evs = Inr s \<and> state_inv s \<and>
           image s = last_image None evs \<and>
           (case image s of
              None \<Rightarrow> pieces s = []
            | Some img \<Rightarrow> grid_ok img (pieces s))"
    by (intro exI [of _ s]) (simp add: state_inv_def)
next
  assume a: "state_inv s0 \<and> image s0 = Some img0 \<and> valid_event ev"
  with state_inv_step [of s0 ev]
  obtain s' where s': "step s0 ev = Inr s'" "state_inv s'" "image s' = last_image (Some img0) [ev]"
    by auto
  have "\<exists>img'. last_image (Some img0) [ev] = Some img'" by (cases ev) simp_all
  with s' show "\<exists>s' img'. step s0 ev = Inr s' \<and> state_inv s' \<and> image s' = Some img' \<and>
         grid_ok img' (pieces s')"
    by (auto simp: state_inv_def)
qed

theorem grid_invariant_preserved_witness:
  "\<exists>s. run initial_state
          [ImageLoad \<lparr>img_width = 1000, img_height = 625\<rparr> 1500 (\<lambda>k. 1 / 2),
           MouseDown 700 400, MouseMove 710 420, MouseUp, Wheel 1,
           ClickMessUp (\<lambda>k. 0), ClickFix, MouseDown 10 10, MouseMove 20 20] = Inr s \<and>
        image s = Some \<lparr>img_width = 1000, img_height = 625\<rparr> \<and>
        length (pieces s) = 1000 \<and>
        p_sx (pieces s ! 999) = 975 \<and> p_sy (pieces s ! 999) = 600 \<and>
        p_width (pieces s ! 999) = 25 \<and> p_height (pieces s ! 999) = 25"
proof -
  let ?img = "\<lparr>img_width = 1000, img_height = 625\<rparr>"
  let ?evs = "[ImageLoad ?img 1500 (\<lambda>k. 1 / 2),
           MouseDown 700 400, MouseMove 710 420, MouseUp, Wheel 1,
           ClickMessUp (\<lambda>k. 0), ClickFix, MouseDown 10 10, MouseMove 20 20]"
  have v: "\<forall>ev \<in> set ?evs. valid_event ev" by simp
  from grid_invariant_preserved [of ?evs, THEN conjunct2, THEN conjunct1, THEN mp, OF v]
  obtain s where s: "run initial_state ?evs = Inr s" "image s = last_image None ?evs"
    "case image s of None \<Rightarrow> pieces s = [] | Some img \<Rightarrow> grid_ok img (pieces s)"
    by blast
  from s(2) have img: "image s = Some ?img" by simp
  with s(3) have g: "grid_ok ?img (pieces s)" by simp
  then have len: "length (pieces s) = 1000" by (simp add: grid_ok_def ROWS_def COLS_def)
  then have "(999::nat) < length (pieces s)" by simp
  with g have "p_width (pieces s ! 999) = img_width ?img / real COLS"
    "p_height (pieces s ! 999) = img_height ?img / real ROWS"
    "p_sx (pieces s ! 999) = real (999 mod COLS) * p_width (pieces s ! 999)"
    "p_sy (pieces s ! 999) = real (999 div COLS) * p_height (pieces s ! 999)"
    unfolding grid_ok_def by blast+
  then have "p_sx (pieces s ! 999) = 975" "p_sy (pieces s ! 999) = 600"
    "p_width (pieces s ! 999) = 25" "p_height (pieces s ! 999) = 25"
    by (simp_all add: ROWS_def COLS_def)
  with s(1) img len show ?thesis by blast
qed

section \<open>Release and snap\<close>

text \<open>
  The solve button puts every tile at its source origin: in logical space the solved
  position of a tile is \<open>(sx, sy)\<close>.
\<close>

lemma fixPuzzle_position_is_source:
  assumes "image s = Some img" "p \<in> set (pieces (fixPuzzle s))"
  shows "p_x p = p_sx p \<and> p_y p = p_sy p"
proof -
  from assms obtain i where "p = solved_piece img i"
    by (auto simp: fixPuzzle_pieces)
  then show ?thesis by (simp add: solved_piece_def)
qed

lemma run_append:
  "run s (evs @ evs') = (case run s evs of Inl e \<Rightarrow> Inl e | Inr s' \<Rightarrow> run s' evs')"
  by (induction evs arbitrary: s) (simp_all split: sum.splits)

lemma snap_test: "sqrt a < SNAP_THRESHOLD \<longleftrightarrow> a < 400"
proof -
  have "sqrt 400 = 20" using real_sqrt_abs [of 20] by simp
  then show ?thesis
    using real_sqrt_less_iff [of a 400] by (simp add: SNAP_THRESHOLD_def)
qed

lemma sample_last_tile:
  "fixPuzzle_rows sample_image 0 [] ! 999 =
     \<lparr>p_sx = 975, p_sy = 600, p_x = 975, p_y = 600, p_width = 25, p_height = 25\<rparr>"
  by (simp add: fixPuzzle_rows_0 solved_piece_def sample_image_def ROWS_def COLS_def)

lemma sample_length: "length (fixPuzzle_rows sample_image 0 []) = Suc 999"
  by (simp add: fixPuzzle_rows_length ROWS_def COLS_def)

lemma sample_drag_reached:
  "run initial_state [ImageLoad sample_image 2000 rnd, ClickFix, MouseDown 1960 1210] =
     Inr sample_drag"
proof -
  define s1 where "s1 = initial_state
       \<lparr>image := Some sample_image, scaleRef := 2, canvasSize := (2000, 1250),
        pieces := initializePieces sample_image rnd\<rparr>"
  define s2 where "s2 = s1\<lparr>pieces := fixPuzzle_rows sample_image 0 []\<rparr>"
  have 1: "step initial_state (ImageLoad sample_image 2000 rnd) = Inr s1"
    by (simp add: onload_def Let_def s1_def sample_image_def)
  have 2: "step s1 ClickFix = Inr s2"
    by (simp add: fixPuzzle_def s1_def s2_def)
  have "pieces s2 = fixPuzzle_rows sample_image 0 []" "scaleRef s2 = 2"
    by (simp_all add: s2_def s1_def)
  moreover have "getPieceAt_loop (fixPuzzle_rows sample_image 0 []) 2 1960 1210 (Suc 999) = Some 999"
    unfolding getPieceAt_loop_Suc by (simp add: in_box_def sample_last_tile)
  ultimately have "getPieceAt s2 1960 1210 = Some 999"
    by (simp only: getPieceAt_def sample_length)
  moreover have "canvasRef s2" "scaleRef s2 = 2"
    by (simp_all add: s2_def s1_def initial_state_def)
  ultimately have "handleMouseDown s2 1960 1210 =
      Inr (s2\<lparr>draggedIndex := Some 999,
               offsetRef := (1960 / scaleRef s2 - p_x (pieces s2 ! 999),
                             1210 / scaleRef s2 - p_y (pieces s2 ! 999))\<rparr>)"
    by (intro handleMouseDown_hit) simp_all
  also have "\<dots> = Inr sample_drag"
    by (simp add: s2_def s1_def sample_drag_def sample_last_tile)
  finally have 3: "step s2 (MouseDown 1960 1210) = Inr sample_drag" by simp
  from 1 2 3 show ?thesis by simp
qed

lemma sample_drag_move:
  "handleMouseMove sample_drag x y =
     Inr (sample_drag\<lparr>pieces := (fixPuzzle_rows sample_image 0 [])
            [999 := \<lparr>p_sx = 975, p_sy = 600, p_x = x / 2 - 5, p_y = y / 2 - 5,
                     p_width = 25, p_height = 25\<rparr>]\<rparr>)"
proof -
  have "draggedIndex sample_drag = Some 999" "canvasRef sample_drag"
    "999 < length (pieces sample_drag)" "scaleRef sample_drag \<noteq> 0"
    by (simp_all add: sample_drag_def initial_state_def sample_length)
  from handleMouseMove_drag [OF this, of x y] show ?thesis
    by (simp add: sample_drag_def sample_last_tile)
qed


lemma sample_drag_release:
  fixes a b :: real
  defines "s \<equiv> sample_drag\<lparr>pieces := (fixPuzzle_rows sample_image 0 [])
            [999 := \<lparr>p_sx = 975, p_sy = 600, p_x = a, p_y = b,
                     p_width = 25, p_height = 25\<rparr>]\<rparr>"
  shows "handleMouseUp s =
     (if (a - 975 / 2)\<^sup>2 + (b - 300)\<^sup>2 < 400
      then Inr (s\<lparr>pieces := (fixPuzzle_rows sample_image 0 [])
                   [999 := \<lparr>p_sx = 975, p_sy = 600, p_x = 975 / 2, p_y = 300,
                            p_width = 25, p_height = 25\<rparr>],
                 draggedIndex := None\<rparr>)
      else Inr (s\<lparr>draggedIndex := None\<rparr>))"
proof -
  have "draggedIndex s = Some 999" "999 < length (pieces s)" "scaleRef s \<noteq> 0"
    by (simp_all add: s_def sample_drag_def initial_state_def sample_length)
  from handleMouseUp_drag [OF this] show ?thesis
    by (simp add: s_def sample_drag_def sample_length snap_test)
qed

lemma handleMouseUp_goes_idle: "handleMouseUp s = Inr s' \<Longrightarrow> draggedIndex s' = None"
  by (auto simp: handleMouseUp_def Let_def split: option.splits if_splits)

text \<open>
  At scale 1 the release does what the specification says of it: within the threshold of
  \<open>(sourceX, sourceY)\<close> the tile is put exactly there, and otherwise no tile moves.
\<close>

lemma handleMouseUp_unit_scale:
  assumes "draggedIndex s = Some i" "i < length (pieces s)" "scaleRef s = 1"
  shows "handleMouseUp s =
     (if euclid (p_x (pieces s ! i), p_y (pieces s ! i))
                (p_sx (pieces s ! i), p_sy (pieces s ! i)) < SNAP_THRESHOLD
      then Inr (s\<lparr>pieces := (pieces s)
                   [i := (pieces s ! i)\<lparr>p_x := p_sx (pieces s ! i),
                                         p_y := p_sy (pieces s ! i)\<rparr>],
                 draggedIndex := None\<rparr>)
      else Inr (s\<lparr>draggedIndex := None\<rparr>))"
  using assms by (simp add: handleMouseUp_drag euclid_def)

text \<open>
  Claim C1 (refuted by the code at a scale other than 1). The claim: for every tile, every
  scale and every drag history, releasing a dragged tile whose Euclidean distance from its
  correct position \<open>(sourceX, sourceY)\<close> is less than \<open>SNAP_THRESHOLD = 20\<close> sets the tile's
  position exactly to \<open>(sourceX, sourceY)\<close>. The code measures the distance to, and snaps
  to, \<open>(sourceX / scale, sourceY / scale)\<close>. In the sample session at scale 2 the last tile,
  of source origin \<open>(975, 600)\<close>, is dragged to \<open>(980, 600)\<close>, at distance 5 from its solved
  position, and the release leaves it at \<open>(980, 600)\<close>.
\<close>

theorem release_near_solved_position_does_not_snap:
  "\<exists>s s'.
     run initial_state
       [ImageLoad sample_image 2000 rnd, ClickFix, MouseDown 1960 1210, MouseMove 1970 1210]
       = Inr s \<and>
     draggedIndex s = Some 999 \<and> scaleRef s = 2 \<and>
     p_sx (pieces s ! 999) = 975 \<and> p_sy (pieces s ! 999) = 600 \<and>
     p_x (pieces s ! 999) = 980 \<and> p_y (pieces s ! 999) = 600 \<and>
     euclid (p_x (pieces s ! 999), p_y (pieces s ! 999))
            (p_sx (pieces s ! 999), p_sy (pieces s ! 999)) < SNAP_THRESHOLD \<and>
     handleMouseUp s = Inr s' \<and>
     p_x (pieces s' ! 999) = 980 \<and> p_y (pieces s' ! 999) = 600"
proof -
  define s where "s = sample_drag\<lparr>pieces := (fixPuzzle_rows sample_image 0 [])
            [999 := \<lparr>p_sx = 975, p_sy = 600, p_x = 980, p_y = 600,
                     p_width = 25, p_height = 25\<rparr>]\<rparr>"
  have "run initial_state
          ([ImageLoad sample_image 2000 rnd, ClickFix, MouseDown 1960 1210] @
           [MouseMove 1970 1210]) = Inr s"
    unfolding run_append sample_drag_reached by (simp add: sample_drag_move s_def)
  then have run: "run initial_state
       [ImageLoad sample_image 2000 rnd, ClickFix, MouseDown 1960 1210, MouseMove 1970 1210]
       = Inr s"
    by simp
  have tile: "pieces s ! 999 =
      \<lparr>p_sx = 975, p_sy = 600, p_x = 980, p_y = 600, p_width = 25, p_height = 25\<rparr>"
    by (simp add: s_def sample_length)
  have st: "draggedIndex s = Some 999" "scaleRef s = 2"
    by (simp_all add: s_def sample_drag_def)
  have near: "euclid (p_x (pieces s ! 999), p_y (pieces s ! 999))
                     (p_sx (pieces s ! 999), p_sy (pieces s ! 999)) < SNAP_THRESHOLD"
    unfolding tile euclid_def snap_test by simp
  have up: "handleMouseUp s = Inr (s\<lparr>draggedIndex := None\<rparr>)"
    unfolding s_def by (subst sample_drag_release) (simp add: power2_eq_square)
  show ?thesis
    using run st near up tile
    by (intro exI [of _ s] exI [of _ "s\<lparr>draggedIndex := None\<rparr>"]) simp
qed

text \<open>
  Claim C9 (refuted by the code at a scale other than 1, by the defect of C1). The claim: a
  release at distance greater than or equal to the snap threshold from the tile's correct
  position leaves every tile's position unchanged, and every release makes the drag state
  idle. In the sample session at scale 2 the last tile, of source origin \<open>(975, 600)\<close>, is
  dragged to \<open>(490, 300)\<close>, far from its solved position, and the release moves it to
  \<open>(487.5, 300)\<close>. The drag state does become idle.
\<close>

theorem release_far_from_solved_position_snaps:
  "\<exists>s s'.
     run initial_state
       [ImageLoad sample_image 2000 rnd, ClickFix, MouseDown 1960 1210, MouseMove 990 610]
       = Inr s \<and>
     draggedIndex s = Some 999 \<and> scaleRef s = 2 \<and>
     p_sx (pieces s ! 999) = 975 \<and> p_sy (pieces s ! 999) = 600 \<and>
     p_x (pieces s ! 999) = 490 \<and> p_y (pieces s ! 999) = 300 \<and>
     SNAP_THRESHOLD \<le> euclid (p_x (pieces s ! 999), p_y (pieces s ! 999))
                              (p_sx (pieces s ! 999), p_sy (pieces s ! 999)) \<and>
     handleMouseUp s = Inr s' \<and>
     draggedIndex s' = None \<and>
     p_x (pieces s' ! 999) = 975 / 2 \<and> p_y (pieces s' ! 999) = 300 \<and>
     pieces s' \<noteq> pieces s"
proof -
  define s where "s = sample_drag\<lparr>pieces := (fixPuzzle_rows sample_image 0 [])
            [999 := \<lparr>p_sx = 975, p_sy = 600, p_x = 490, p_y = 300,
                     p_width = 25, p_height = 25\<rparr>]\<rparr>"
  define s' where "s' = s\<lparr>pieces := (fixPuzzle_rows sample_image 0 [])
                   [999 := \<lparr>p_sx = 975, p_sy = 600, p_x = 975 / 2, p_y = 300,
                            p_width = 25, p_height = 25\<rparr>],
                 draggedIndex := None\<rparr>"
  have "run initial_state
          ([ImageLoad sample_image 2000 rnd, ClickFix, MouseDown 1960 1210] @
           [MouseMove 990 610]) = Inr s"
    unfolding run_append sample_drag_reached by (simp add: sample_drag_move s_def)
  then have run: "run initial_state
       [ImageLoad sample_image 2000 rnd, ClickFix, MouseDown 1960 1210, MouseMove 990 610]
       = Inr s"
    by simp
  have tile: "pieces s ! 999 =
      \<lparr>p_sx = 975, p_sy = 600, p_x = 490, p_y = 300, p_width = 25, p_height = 25\<rparr>"
    by (simp add: s_def sample_length)
  have tile': "pieces s' ! 999 =
      \<lparr>p_sx = 975, p_sy = 600, p_x = 975 / 2, p_y = 300, p_width = 25, p_height = 25\<rparr>"
    by (simp add: s'_def sample_length)
  have st: "draggedIndex s = Some 999" "scaleRef s = 2" "draggedIndex s' = None"
    by (simp_all add: s_def s'_def sample_drag_def)
  have far: "SNAP_THRESHOLD \<le> euclid (p_x (pieces s ! 999), p_y (pieces s ! 999))
                     (p_sx (pieces s ! 999), p_sy (pieces s ! 999))"
    unfolding tile euclid_def not_less [symmetric] snap_test by simp
  have up: "handleMouseUp s = Inr s'"
    unfolding s_def s'_def by (subst sample_drag_release) (simp add: power2_eq_square)
  have "pieces s' ! 999 \<noteq> pieces s ! 999" unfolding tile tile' by simp
  then have "pieces s' \<noteq> pieces s" by auto
  with run st far up tile tile' show ?thesis
    by (intro exI [of _ s] exI [of _ s']) simp
qed

end
